theory Spec2Isabelle
  imports Complex_Main "HOL-Library.Word"
begin

section \<open>JavaScript numbers\<close>

text \<open>
  The stitching service computes with JavaScript \<open>number\<close>s, that is IEEE 754 binary64
  values. A number is a finite value, one of the two infinities, or NaN. The finite
  values are kept as rationals; every arithmetic result is rounded to the nearest
  binary64 value, ties to even, by \<open>fl\<close>. All operands of the service are non-negative,
  so the sign of zero is never observable and zero is always taken as \<open>+0\<close>.
\<close>

datatype number = Fin rat | PosInf | NegInf | NaN

definition pow2 :: "int \<Rightarrow> rat" where
  "pow2 e = (if 0 \<le> e then 2 ^ nat e else 1 / 2 ^ nat (- e))"

fun bitlen :: "nat \<Rightarrow> nat" where
  "bitlen n = (if n = 0 then 0 else Suc (bitlen (n div 2)))"

declare bitlen.simps [simp del]

text \<open>\<open>ilog2 x\<close> is the binary exponent of a positive rational: \<open>2 ^ ilog2 x \<le> x < 2 ^ (ilog2 x + 1)\<close>.\<close>

definition ilog2 :: "rat \<Rightarrow> int" where
  "ilog2 x =
     (let (p, q) = quotient_of x;
          d = int (bitlen (nat p)) - int (bitlen (nat q))
      in if pow2 d \<le> x then d else d - 1)"

definition round_half_even :: "rat \<Rightarrow> int" where
  "round_half_even y =
     (let f = \<lfloor>y\<rfloor>; r = y - of_int f
      in if r < 1 / 2 then f
         else if 1 / 2 < r then f + 1
         else if even f then f else f + 1)"

text \<open>
  Rounding to binary64: 53 significant bits, least exponent \<open>-1022\<close> (below it the
  spacing stays \<open>2 ^ -1074\<close>, the subnormal range), overflow to infinity from \<open>2 ^ 1024\<close>.
\<close>

definition fl :: "rat \<Rightarrow> number" where
  "fl x =
     (if x = 0 then Fin 0
      else
        let a = \<bar>x\<bar>;
            e = max (ilog2 a) (- 1022);
            u = pow2 (e - 52);
            r = of_int (round_half_even (a / u)) * u
        in if pow2 1024 \<le> r then (if 0 < x then PosInf else NegInf)
           else Fin (if 0 < x then r else - r))"

text \<open>The operator \<open>/\<close> of the language.\<close>

fun num_div :: "number \<Rightarrow> number \<Rightarrow> number" where
  "num_div NaN b = NaN"
| "num_div a NaN = NaN"
| "num_div (Fin x) (Fin y) =
     (if y = 0 then (if x = 0 then NaN else if 0 < x then PosInf else NegInf)
      else fl (x / y))"
| "num_div (Fin x) b = Fin 0"
| "num_div PosInf (Fin y) = (if 0 \<le> y then PosInf else NegInf)"
| "num_div NegInf (Fin y) = (if 0 \<le> y then NegInf else PosInf)"
| "num_div a b = NaN"

text \<open>The operator \<open>*\<close> of the language.\<close>

fun num_mul :: "number \<Rightarrow> number \<Rightarrow> number" where
  "num_mul NaN b = NaN"
| "num_mul a NaN = NaN"
| "num_mul (Fin x) (Fin y) = fl (x * y)"
| "num_mul (Fin x) PosInf = (if x = 0 then NaN else if 0 < x then PosInf else NegInf)"
| "num_mul (Fin x) NegInf = (if x = 0 then NaN else if 0 < x then NegInf else PosInf)"
| "num_mul PosInf (Fin y) = (if y = 0 then NaN else if 0 < y then PosInf else NegInf)"
| "num_mul NegInf (Fin y) = (if y = 0 then NaN else if 0 < y then NegInf else PosInf)"
| "num_mul PosInf PosInf = PosInf"
| "num_mul NegInf NegInf = PosInf"
| "num_mul a b = NegInf"

text \<open>The operator \<open>+\<close> of the language, on numbers.\<close>

fun num_add :: "number \<Rightarrow> number \<Rightarrow> number" where
  "num_add NaN b = NaN"
| "num_add a NaN = NaN"
| "num_add (Fin x) (Fin y) = fl (x + y)"
| "num_add PosInf NegInf = NaN"
| "num_add NegInf PosInf = NaN"
| "num_add (Fin x) b = b"
| "num_add a b = a"

text \<open>\<open>Math.round\<close>: the nearest integer, a tie going towards \<open>+\<infinity>\<close>.\<close>

fun Math_round :: "number \<Rightarrow> number" where
  "Math_round (Fin x) = Fin (of_int \<lfloor>x + 1 / 2\<rfloor>)"
| "Math_round a = a"

text \<open>The comparison \<open><\<close> of the language: false as soon as one side is NaN.\<close>

fun num_less :: "number \<Rightarrow> number \<Rightarrow> bool" where
  "num_less NaN b = False"
| "num_less a NaN = False"
| "num_less (Fin x) (Fin y) = (x < y)"
| "num_less a PosInf = (a \<noteq> PosInf)"
| "num_less NegInf b = (b \<noteq> NegInf)"
| "num_less a b = False"

section \<open>The browser platform\<close>

text \<open>
  \<open>naturalWidth\<close> and \<open>naturalHeight\<close> of an image element are \<open>unsigned long\<close>
  attributes: 32-bit words, read by the script as numbers.
\<close>

definition to_number :: "32 word \<Rightarrow> number" where
  "to_number n = Fin (of_nat (unat n))"

text \<open>
  Writing a number to an \<open>unsigned long\<close> attribute converts it as Web IDL does: NaN and
  the infinities become 0, any other value is truncated towards zero and reduced modulo
  \<open>2 ^ 32\<close>. The \<open>width\<close> and \<open>height\<close> attributes of a canvas reflect content attributes
  with a default: a value above \<open>2 ^ 31 - 1\<close> is replaced by the default.
\<close>

definition to_unsigned_long :: "number \<Rightarrow> int" where
  "to_unsigned_long v =
     (case v of
        Fin x \<Rightarrow> (if 0 \<le> x then \<lfloor>x\<rfloor> else \<lceil>x\<rceil>) mod 2 ^ 32
      | _ \<Rightarrow> 0)"

definition reflect_unsigned_long :: "int \<Rightarrow> number \<Rightarrow> int" where
  "reflect_unsigned_long dflt v =
     (let n = to_unsigned_long v in if n \<le> 2147483647 then n else dflt)"

type_synonym url = nat

record 'p HTMLImageElement =
  naturalWidth :: "32 word"
  naturalHeight :: "32 word"
  src :: url
  pixels :: 'p

datatype 'p draw_op =
    FillRect string number number number number
  | DrawImage "'p HTMLImageElement" number number number number

record 'p canvas =
  c_width :: int
  c_height :: int
  fillStyle :: string
  drawn :: "'p draw_op list"

datatype console_entry = Log string | Warn string | ErrorLog string

text \<open>
  What a run can observe and change outside its own variables: the object URLs that are
  alive (each is a handle on a file or blob, numbered in order of creation), the canvases
  created so far, and the console.
\<close>

record 'p world =
  next_url :: nat
  object_urls :: "url list"
  canvases :: "'p canvas list"
  console :: "console_entry list"

datatype error =
    Error string
  | LoadEvent
  | ReadEvent
  | CodecError string
  | TypeError
  | SecurityError
  | FetchError

text \<open>
  The metadata dictionary of the codec: IFD name to tag id to value. The codec is an
  untyped global (\<open>window.piexif: any\<close>), so \<open>load\<close> may return any value.
\<close>

type_synonym exif_dict = "(string \<times> (nat \<times> string) list) list"

datatype js_value = Obj exif_dict | Null | Str string | Undefined

fun typeof :: "js_value \<Rightarrow> string" where
  "typeof (Obj d) = ''object''"
| "typeof Null = ''object''"
| "typeof (Str s) = ''string''"
| "typeof Undefined = ''undefined''"

record piexif =
  piexif_load :: "string \<Rightarrow> error + js_value"
  piexif_dump :: "js_value \<Rightarrow> error + string"
  piexif_insert :: "string \<Rightarrow> string \<Rightarrow> error + string"

text \<open>
  The platform a run executes on: whether and to what a file decodes as an image, whether
  a canvas of a given size yields a 2D context, the JPEG data URL of a canvas (or the
  exception \<open>toDataURL\<close> throws), the data URL of a file (or the reader's error), the
  metadata codec when the page has loaded it, and whether fetching a data URL succeeds.
\<close>

record ('f, 'p) platform =
  decode :: "'f \<Rightarrow> (32 word \<times> 32 word \<times> 'p) option"
  getContext :: "int \<Rightarrow> int \<Rightarrow> bool"
  toDataURL :: "'p canvas \<Rightarrow> string option"
  readAsDataURL :: "'f \<Rightarrow> string option"
  window_piexif :: "piexif option"
  fetch :: "string \<Rightarrow> bool"

section \<open>types.ts\<close>

record 'f UploadedImage =
  u_id :: string
  u_file :: 'f
  previewUrl :: string
  u_width :: number
  u_height :: number
  isVideo :: "bool option"

text \<open>A blob is identified with the data URL whose bytes it holds.\<close>

datatype blob = Blob string

record StitchResult =
  blob :: "blob option"
  url :: url
  movUrl :: "string option"
  jpgUrl :: "string option"
  width :: number
  height :: number
  isLivePhoto :: "bool option"

section \<open>services/imageService.ts\<close>

definition createObjectURL :: "'p world \<Rightarrow> url \<times> 'p world" where
  "createObjectURL w =
     (next_url w,
      w\<lparr>next_url := Suc (next_url w), object_urls := object_urls w @ [next_url w]\<rparr>)"

definition revokeObjectURL :: "url \<Rightarrow> 'p world \<Rightarrow> 'p world" where
  "revokeObjectURL u w = w\<lparr>object_urls := removeAll u (object_urls w)\<rparr>"

text \<open>
  \<open>loadImage\<close>: the executor of the promise runs at once, so the object URL exists
  whether the image later loads (\<open>onload\<close> resolves with the element) or not (\<open>onerror\<close>
  rejects with the event). The URL is not revoked here: it is kept alive for drawing.
\<close>

definition loadImage ::
  "('f, 'p) platform \<Rightarrow> 'f \<Rightarrow> 'p world \<Rightarrow> (error + 'p HTMLImageElement) \<times> 'p world" where
  "loadImage P f w =
     (let (u, w') = createObjectURL w
      in case decode P f of
           None \<Rightarrow> (Inl LoadEvent, w')
         | Some (nw, nh, px) \<Rightarrow>
             (Inr \<lparr>naturalWidth = nw, naturalHeight = nh, src = u, pixels = px\<rparr>, w'))"

definition readFileAsDataURL :: "('f, 'p) platform \<Rightarrow> 'f \<Rightarrow> error + string" where
  "readFileAsDataURL P f = (case readAsDataURL P f of None \<Rightarrow> Inl ReadEvent | Some s \<Rightarrow> Inr s)"

text \<open>\<open>uploadedImages.map(u => loadImage(u.file))\<close>: every promise is started, in order.\<close>

fun map_loadImage ::
  "('f, 'p) platform \<Rightarrow> 'f list \<Rightarrow> 'p world \<Rightarrow> (error + 'p HTMLImageElement) list \<times> 'p world" where
  "map_loadImage P [] w = ([], w)"
| "map_loadImage P (f # fs) w =
     (let (r, w1) = loadImage P f w;
          (rs, w2) = map_loadImage P fs w1
      in (r # rs, w2))"

text \<open>
  \<open>Promise.all\<close>: rejected as soon as one promise is, fulfilled with all the values, in
  order, otherwise. Every rejection here carries the same kind of reason.
\<close>

fun Promise_all :: "(error + 'a) list \<Rightarrow> error + 'a list" where
  "Promise_all [] = Inr []"
| "Promise_all (Inl e # rs) = Inl e"
| "Promise_all (Inr x # rs) =
     (case Promise_all rs of Inl e \<Rightarrow> Inl e | Inr xs \<Rightarrow> Inr (x # xs))"

record 'p draw_data =
  img :: "'p HTMLImageElement"
  scaledHeight :: number
  scaleFactor :: number

text \<open>
  Step 2, the \<open>map\<close> whose callback also adds to \<open>totalHeight\<close>: the running total is
  threaded through, and returned with the draw data.
\<close>

fun imageDrawData ::
  "number \<Rightarrow> number \<Rightarrow> 'p HTMLImageElement list \<Rightarrow> 'p draw_data list \<times> number" where
  "imageDrawData targetWidth totalHeight [] = ([], totalHeight)"
| "imageDrawData targetWidth totalHeight (i # is) =
     (let scaleFactor = num_div targetWidth (to_number (naturalWidth i));
          scaledHeight = num_mul (to_number (naturalHeight i)) scaleFactor;
          totalHeight' = num_add totalHeight scaledHeight;
          (ds, total) = imageDrawData targetWidth totalHeight' is
      in (\<lparr>img = i, scaledHeight = scaledHeight, scaleFactor = scaleFactor\<rparr> # ds, total))"

text \<open>Step 2: the target width, the draw data and the total height.\<close>

definition layout ::
  "'p HTMLImageElement \<Rightarrow> 'p HTMLImageElement list \<Rightarrow> number \<times> 'p draw_data list \<times> number" where
  "layout first loadedImages =
     (let targetWidth = to_number (naturalWidth first);
          (drawData, totalHeight) = imageDrawData targetWidth (Fin 0) loadedImages
      in (targetWidth, drawData, totalHeight))"

text \<open>
  Step 3: the canvas element as created and sized. Its \<open>width\<close> and \<open>height\<close> are
  assigned \<open>targetWidth\<close> and \<open>totalHeight\<close> as they are.
\<close>

definition new_canvas :: "number \<Rightarrow> number \<Rightarrow> 'p canvas" where
  "new_canvas targetWidth totalHeight =
     \<lparr>c_width = reflect_unsigned_long 300 targetWidth,
      c_height = reflect_unsigned_long 150 totalHeight,
      fillStyle = ''#000000'', drawn = []\<rparr>"

text \<open>Step 4, the \<open>forEach\<close> that draws and advances \<open>currentY\<close>.\<close>

fun draw_images :: "number \<Rightarrow> number \<Rightarrow> 'p draw_data list \<Rightarrow> 'p draw_op list" where
  "draw_images targetWidth currentY [] = []"
| "draw_images targetWidth currentY (d # ds) =
     DrawImage (img d) (Fin 0) currentY targetWidth (scaledHeight d)
       # draw_images targetWidth (num_add currentY (scaledHeight d)) ds"

text \<open>The white background and step 4 on that canvas.\<close>

definition paint :: "number \<Rightarrow> 'p draw_data list \<Rightarrow> 'p canvas \<Rightarrow> 'p canvas" where
  "paint targetWidth drawData cv =
     cv\<lparr>fillStyle := ''#FFFFFF'',
        drawn := drawn cv @
          FillRect ''#FFFFFF'' (Fin 0) (Fin 0) (Fin (of_int (c_width cv))) (Fin (of_int (c_height cv)))
            # draw_images targetWidth (Fin 0) drawData\<rparr>"

text \<open>
  Step 6, the inner \<open>try\<close> block: what it leaves in \<open>finalDataUrl\<close> and writes to the
  console, or the exception that leaves it. The console messages and the messages of the
  two errors that \<open>stitchImages\<close> throws itself are given in English.
\<close>

definition exif_try :: "piexif \<Rightarrow> string \<Rightarrow> string \<Rightarrow> error + string \<times> console_entry list" where
  "exif_try codec firstImageDataUrl stitchedDataUrl =
     (case piexif_load codec firstImageDataUrl of
        Inl e \<Rightarrow> Inl e
      | Inr exifObj \<Rightarrow>
          if typeof exifObj = ''object'' then
            (case piexif_dump codec exifObj of
               Inl e \<Rightarrow> Inl e
             | Inr exifBytes \<Rightarrow>
                 (case piexif_insert codec exifBytes stitchedDataUrl of
                    Inl e \<Rightarrow> Inl e
                  | Inr finalDataUrl \<Rightarrow>
                      Inr (finalDataUrl, [Log ''EXIF data transferred successfully.''])))
          else Inr (stitchedDataUrl, []))"

text \<open>The outer \<open>try\<close> block of step 6, before its \<open>catch\<close>.\<close>

definition exif_outer_try ::
  "('f, 'p) platform \<Rightarrow> 'f \<Rightarrow> string \<Rightarrow> error + string \<times> console_entry list" where
  "exif_outer_try P firstFile stitchedDataUrl =
     (case readFileAsDataURL P firstFile of
        Inl e \<Rightarrow> Inl e
      | Inr firstImageDataUrl \<Rightarrow>
          (case window_piexif P of
             Some codec \<Rightarrow>
               (case exif_try codec firstImageDataUrl stitchedDataUrl of
                  Inl exifError \<Rightarrow>
                    Inr (stitchedDataUrl, [Warn ''Could not extract or insert EXIF data''])
                | Inr r \<Rightarrow> Inr r)
           | None \<Rightarrow>
               Inr (stitchedDataUrl, [Warn ''Piexifjs not found. EXIF data will not be kept.''])))"

text \<open>Step 6 as a whole: the value of \<open>finalDataUrl\<close> after it, or what it throws.\<close>

definition process_exif ::
  "('f, 'p) platform \<Rightarrow> 'f \<Rightarrow> string \<Rightarrow> error + string \<times> console_entry list" where
  "process_exif P firstFile stitchedDataUrl =
     (case exif_outer_try P firstFile stitchedDataUrl of
        Inl err \<Rightarrow> Inr (stitchedDataUrl, [ErrorLog ''Error while processing EXIF''])
      | Inr r \<Rightarrow> Inr r)"

text \<open>Step 7 and the clean-up, from the final data URL on.\<close>

definition export_result ::
  "('f, 'p) platform \<Rightarrow> 'p HTMLImageElement list \<Rightarrow> number \<Rightarrow> number \<Rightarrow> string \<Rightarrow> 'p world
     \<Rightarrow> (error + StitchResult) \<times> 'p world" where
  "export_result P loadedImages targetWidth totalHeight finalDataUrl w =
     (if \<not> fetch P finalDataUrl then (Inl FetchError, w)
      else
        let b = Blob finalDataUrl;
            (u, w1) = createObjectURL w;
            w2 = fold (\<lambda>i. revokeObjectURL (src i)) loadedImages w1
        in (Inr \<lparr>blob = Some b, url = u, movUrl = None, jpgUrl = None,
                 width = targetWidth, height = Math_round totalHeight,
                 isLivePhoto = None\<rparr>, w2))"

text \<open>
  Steps 1 to 5 of \<open>stitchImages\<close>: from the uploaded images to \<open>stitchedDataUrl\<close>,
  with the loaded images, the target width and the total height that the later steps use.
  \<open>loadedImages[0]\<close> of an empty array is \<open>undefined\<close>, and reading its width a
  \<open>TypeError\<close>.
\<close>

definition stitch_to_data_url ::
  "('f, 'p) platform \<Rightarrow> 'f UploadedImage list \<Rightarrow> 'p world
     \<Rightarrow> (error + 'p HTMLImageElement list \<times> number \<times> number \<times> string) \<times> 'p world" where
  "stitch_to_data_url P uploadedImages w =
     (if length uploadedImages = 0 then (Inl (Error ''no images to stitch''), w)
      else
        (let (promises, w1) = map_loadImage P (map u_file uploadedImages) w
         in (case Promise_all promises of
               Inl e \<Rightarrow> (Inl e, w1)
             | Inr loadedImages \<Rightarrow>
                 (case loadedImages of
                    [] \<Rightarrow> (Inl TypeError, w1)
                  | first # rest \<Rightarrow>
                      (let (targetWidth, drawData, totalHeight) = layout first loadedImages;
                           cv0 = new_canvas targetWidth totalHeight;
                           w2 = w1\<lparr>canvases := canvases w1 @ [cv0]\<rparr>
                       in if \<not> getContext P (c_width cv0) (c_height cv0)
                          then (Inl (Error ''cannot get canvas context''), w2)
                          else
                            (let cv = paint targetWidth drawData cv0;
                                 w3 = w1\<lparr>canvases := canvases w1 @ [cv]\<rparr>
                             in (case toDataURL P cv of
                                   None \<Rightarrow> (Inl SecurityError, w3)
                                 | Some stitchedDataUrl \<Rightarrow>
                                     (Inr (loadedImages, targetWidth, totalHeight, stitchedDataUrl),
                                      w3))))))))"

definition stitchImages ::
  "('f, 'p) platform \<Rightarrow> 'f UploadedImage list \<Rightarrow> 'p world
     \<Rightarrow> (error + StitchResult) \<times> 'p world" where
  "stitchImages P uploadedImages w =
     (case stitch_to_data_url P uploadedImages w of
        (Inl e, w') \<Rightarrow> (Inl e, w')
      | (Inr (loadedImages, targetWidth, totalHeight, stitchedDataUrl), w') \<Rightarrow>
          (case process_exif P (u_file (hd uploadedImages)) stitchedDataUrl of
             Inl e \<Rightarrow> (Inl e, w')
           | Inr (finalDataUrl, msgs) \<Rightarrow>
               export_result P loadedImages targetWidth totalHeight finalDataUrl
                 (w'\<lparr>console := console w' @ msgs\<rparr>)))"

section \<open>The draw plan of the specification\<close>

text \<open>
  The specification describes each entry of the draw plan by its scaled height and by its
  vertical offset, "the cumulative sum of prior scaledHeights". These two definitions follow
  its words; the draw loop of the code is compared with them.
\<close>

definition spec_scaledHeight :: "number \<Rightarrow> 'p HTMLImageElement \<Rightarrow> number" where
  "spec_scaledHeight targetWidth i =
     num_mul (to_number (naturalHeight i)) (num_div targetWidth (to_number (naturalWidth i)))"

definition spec_yOffset :: "number \<Rightarrow> 'p HTMLImageElement list \<Rightarrow> nat \<Rightarrow> number" where
  "spec_yOffset targetWidth is k =
     foldl num_add (Fin 0) (map (spec_scaledHeight targetWidth) (take k is))"

section \<open>Representable values\<close>

text \<open>
  Notions for the proofs about rounding. A rational is on the grid when it is an integer
  multiple of the spacing that binary64 has at its magnitude. A number is non-negative
  when it is not below zero (NaN and \<open>+\<infinity>\<close> included), and good when, if finite, it is
  moreover on the grid.
\<close>

definition grid :: "rat \<Rightarrow> bool" where
  "grid r \<longleftrightarrow> (\<exists>m::int. r = of_int m * pow2 (max (ilog2 r) (- 1022) - 52))"

definition nonneg :: "number \<Rightarrow> bool" where
  "nonneg v = (case v of Fin r \<Rightarrow> 0 \<le> r | PosInf \<Rightarrow> True | NegInf \<Rightarrow> False | NaN \<Rightarrow> True)"

definition good :: "number \<Rightarrow> bool" where
  "good v = (case v of Fin r \<Rightarrow> 0 \<le> r \<and> grid r | PosInf \<Rightarrow> True | NegInf \<Rightarrow> False | NaN \<Rightarrow> True)"

section \<open>Sample inputs\<close>

text \<open>
  An uploaded image as \<open>App.tsx\<close> builds it from a file, a world in which nothing has
  happened yet, and platforms for concrete runs: files are named by strings, a file's data
  URL is its name, every canvas yields a context and encodes to \<open>''jpeg''\<close>, every fetch
  succeeds.
\<close>

definition upload :: "'f \<Rightarrow> 'f UploadedImage" where
  "upload f =
     \<lparr>u_id = ''id'', u_file = f, previewUrl = ''preview'', u_width = Fin 0, u_height = Fin 0,
      isVideo = Some False\<rparr>"

definition fresh_world :: "'p world" where
  "fresh_world = \<lparr>next_url = 0, object_urls = [], canvases = [], console = []\<rparr>"

definition sample_decode :: "string \<Rightarrow> (32 word \<times> 32 word \<times> string) option" where
  "sample_decode =
     map_of [(''a'', (100, 50, ''A'')), (''b'', (200, 50, ''B'')),
             (''c'', (2, 1, ''C'')), (''d'', (4, 3, ''D'')),
             (''e'', (1, 1, ''E'')), (''z'', (1, 0, ''Z''))]"

definition sample_platform :: "piexif option \<Rightarrow> (string, string) platform" where
  "sample_platform codec =
     \<lparr>decode = sample_decode, getContext = (\<lambda>cw ch. True), toDataURL = (\<lambda>cv. Some ''jpeg''),
      readAsDataURL = (\<lambda>f. Some f), window_piexif = codec, fetch = (\<lambda>s. True)\<rparr>"

text \<open>The image elements that the files \<open>''a''\<close> and \<open>''b''\<close> load as, when loaded first and second.\<close>

definition image_a :: "string HTMLImageElement" where
  "image_a = \<lparr>naturalWidth = 100, naturalHeight = 50, src = 0, pixels = ''A''\<rparr>"

definition image_b :: "string HTMLImageElement" where
  "image_b = \<lparr>naturalWidth = 200, naturalHeight = 50, src = 1, pixels = ''B''\<rparr>"

text \<open>The same for the files \<open>''c''\<close> and \<open>''d''\<close>.\<close>

definition image_c :: "string HTMLImageElement" where
  "image_c = \<lparr>naturalWidth = 2, naturalHeight = 1, src = 0, pixels = ''C''\<rparr>"

definition image_d :: "string HTMLImageElement" where
  "image_d = \<lparr>naturalWidth = 4, naturalHeight = 3, src = 1, pixels = ''D''\<rparr>"

text \<open>
  A codec for which the file \<open>''a''\<close> and its own output carry the tag "Make = Canon", the
  file \<open>''n''\<close> carries "Make = Nikon", and no other file carries metadata.
\<close>

definition canon :: exif_dict where
  "canon = [(''0th'', [(271, ''Canon'')])]"

definition nikon :: exif_dict where
  "nikon = [(''0th'', [(271, ''Nikon'')])]"

definition tagging_codec :: piexif where
  "tagging_codec =
     \<lparr>piexif_load = (\<lambda>s. if s = ''a'' \<or> take 5 s = ''Exif:'' then Inr (Obj canon)
                          else if s = ''n'' then Inr (Obj nikon)
                          else Inl (CodecError ''no metadata'')),
      piexif_dump = (\<lambda>v. Inr ''Exif:''),
      piexif_insert = (\<lambda>seg s. Inr (seg @ s))\<rparr>"

text \<open>A file reader for which the second file carries the Nikon tag.\<close>

definition other_reader :: "string \<Rightarrow> string option" where
  "other_reader f = (if f = ''a'' then Some ''a'' else Some ''n'')"

text \<open>A codec that finds a metadata segment without any tag in every file.\<close>

definition no_tags :: exif_dict where
  "no_tags = [(''0th'', []), (''Exif'', []), (''GPS'', []), (''Interop'', []), (''1st'', [])]"

definition empty_codec :: piexif where
  "empty_codec =
     \<lparr>piexif_load = (\<lambda>s. Inr (Obj no_tags)),
      piexif_dump = (\<lambda>v. Inr ''Exif:''),
      piexif_insert = (\<lambda>seg s. Inr (seg @ s))\<rparr>"

text \<open>A codec that rejects every file.\<close>

definition failing_codec :: piexif where
  "failing_codec =
     \<lparr>piexif_load = (\<lambda>s. Inl (CodecError ''cannot parse'')),
      piexif_dump = (\<lambda>v. Inr ''Exif:''),
      piexif_insert = (\<lambda>seg s. Inr (seg @ s))\<rparr>"

section \<open>Rounding to binary64\<close>

lemma pow2_powi: "pow2 e = 2 powi e"
  by (simp add: pow2_def power_int_def inverse_eq_divide power_one_over)

lemma pow2_pos: "0 < pow2 e"
  by (simp add: pow2_def)

lemma pow2_add: "pow2 (a + b) = pow2 a * pow2 b"
  unfolding pow2_powi by (rule power_int_add) simp

lemma pow2_mono: "a \<le> b \<Longrightarrow> pow2 a \<le> pow2 b"
  unfolding pow2_powi by (rule power_int_increasing) simp_all

lemma pow2_strict_mono: "a < b \<Longrightarrow> pow2 a < pow2 b"
  unfolding pow2_powi by (rule power_int_strict_increasing) simp_all

lemma pow2_less_cancel: "pow2 a < pow2 b \<Longrightarrow> a < b"
  using pow2_mono [of b a] by (cases "a < b") simp_all

lemma pow2_nat: "pow2 (int n) = 2 ^ n"
  by (simp add: pow2_def)

lemma pow2_0: "pow2 0 = 1"
  by (simp add: pow2_def)

lemma pow2_diff: "pow2 (a - b) = pow2 a / pow2 b"
  unfolding pow2_powi by (rule power_int_diff) simp

lemma bitlen_pos: "0 < n \<Longrightarrow> 0 < bitlen n"
  by (subst bitlen.simps) simp

lemma bitlen_bounds: "0 < n \<Longrightarrow> 2 ^ (bitlen n - 1) \<le> n \<and> n < 2 ^ bitlen n"
proof (induction n rule: bitlen.induct)
  case (1 n)
  show ?case
  proof (cases "n div 2 = 0")
    case True
    with "1.prems" have "n = 1" by (simp add: div_eq_0_iff)
    then show ?thesis by (simp add: bitlen.simps)
  next
    case False
    then have pos: "0 < n div 2" by simp
    from "1.prems" have n0: "n \<noteq> 0" by simp
    let ?b = "bitlen (n div 2)"
    from "1.IH" [OF n0 pos] have lo: "2 ^ (?b - 1) \<le> n div 2" and hi: "n div 2 < 2 ^ ?b"
      by simp_all
    from bitlen_pos [OF pos] have b: "0 < ?b" .
    have eq: "bitlen n = Suc ?b" using n0 by (subst bitlen.simps) simp
    have "2 * 2 ^ (?b - 1) \<le> 2 * (n div 2)" using lo by simp
    moreover have "2 * 2 ^ (?b - 1) = (2::nat) ^ ?b" using b by (cases ?b) simp_all
    ultimately have "2 ^ ?b \<le> n" by arith
    moreover have "n < 2 ^ Suc ?b" using hi by simp
    ultimately show ?thesis by (simp add: eq)
  qed
qed


lemma ilog2_bounds:
  assumes "0 < x"
  shows "pow2 (ilog2 x) \<le> x \<and> x < pow2 (ilog2 x + 1)"
proof -
  obtain p q where pq: "quotient_of x = (p, q)" by (cases "quotient_of x")
  have q: "0 < q" using quotient_of_denom_pos [OF pq] .
  have x: "x = of_int p / of_int q" using quotient_of_div [OF pq] .
  have p: "0 < p" using assms q by (simp add: x zero_less_divide_iff)
  define bp where "bp = bitlen (nat p)"
  define bq where "bq = bitlen (nat q)"
  define d where "d = int bp - int bq"
  have bp1: "0 < bp" and bq1: "0 < bq"
    using p q by (simp_all add: bp_def bq_def bitlen_pos)
  from bitlen_bounds [of "nat p"] p
  have "2 ^ (bp - 1) \<le> nat p" and "nat p < 2 ^ bp" by (simp_all add: bp_def)
  then have "(of_nat (2 ^ (bp - 1)) :: rat) \<le> of_nat (nat p)" and "(of_nat (nat p) :: rat) < of_nat (2 ^ bp)"
    by (simp_all only: of_nat_le_iff of_nat_less_iff)
  then have plo: "(2::rat) ^ (bp - 1) \<le> of_int p" and phi: "(of_int p :: rat) < 2 ^ bp"
    using p by simp_all
  from bitlen_bounds [of "nat q"] q
  have "2 ^ (bq - 1) \<le> nat q" and "nat q < 2 ^ bq" by (simp_all add: bq_def)
  then have "(of_nat (2 ^ (bq - 1)) :: rat) \<le> of_nat (nat q)" and "(of_nat (nat q) :: rat) < of_nat (2 ^ bq)"
    by (simp_all only: of_nat_le_iff of_nat_less_iff)
  then have qlo: "(2::rat) ^ (bq - 1) \<le> of_int q" and qhi: "(of_int q :: rat) < 2 ^ bq"
    using q by simp_all
  have qpos: "(0::rat) < of_int q" using q by simp
  have "pow2 (d - 1) * of_int q < pow2 (d - 1) * 2 ^ bq"
    using qhi pow2_pos [of "d - 1"] by simp
  also have "pow2 (d - 1) * 2 ^ bq = pow2 (d - 1 + int bq)"
    by (simp add: pow2_add pow2_nat)
  also have "d - 1 + int bq = int (bp - 1)" using bp1 by (simp add: d_def)
  also have "pow2 (int (bp - 1)) = 2 ^ (bp - 1)" by (rule pow2_nat)
  finally have "pow2 (d - 1) * of_int q < 2 ^ (bp - 1)" .
  then have "pow2 (d - 1) * of_int q < of_int p" using plo by (rule less_le_trans)
  then have lower: "pow2 (d - 1) < x" using qpos by (simp add: x pos_less_divide_eq)
  have "(of_int p :: rat) < 2 ^ bp" by (rule phi)
  also have "(2::rat) ^ bp = pow2 (int bp)" by (simp only: pow2_nat)
  also have "pow2 (int bp) = pow2 (d + 1 + int (bq - 1))" using bq1 by (simp add: d_def)
  also have "pow2 (d + 1 + int (bq - 1)) = pow2 (d + 1) * 2 ^ (bq - 1)"
    by (simp only: pow2_add pow2_nat)
  also have "\<dots> \<le> pow2 (d + 1) * of_int q"
    using qlo pow2_pos [of "d + 1"] by simp
  finally have upper: "x < pow2 (d + 1)" using qpos by (simp add: x pos_divide_less_eq)
  have il: "ilog2 x = (if pow2 d \<le> x then d else d - 1)"
    by (simp add: ilog2_def pq bp_def bq_def d_def)
  show ?thesis
  proof (cases "pow2 d \<le> x")
    case True
    with upper show ?thesis by (simp add: il)
  next
    case False
    with lower show ?thesis by (simp add: il)
  qed
qed

lemma ilog2_unique:
  assumes "pow2 e \<le> x" and "x < pow2 (e + 1)"
  shows "ilog2 x = e"
proof -
  have "0 < x" using assms(1) pow2_pos [of e] by simp
  from ilog2_bounds [OF this]
  have lo: "pow2 (ilog2 x) \<le> x" and hi: "x < pow2 (ilog2 x + 1)" by simp_all
  have "pow2 e < pow2 (ilog2 x + 1)" using assms(1) hi by simp
  then have "e < ilog2 x + 1" by (rule pow2_less_cancel)
  moreover have "pow2 (ilog2 x) < pow2 (e + 1)" using lo assms(2) by simp
  then have "ilog2 x < e + 1" by (rule pow2_less_cancel)
  ultimately show ?thesis by simp
qed

lemma round_half_even_of_int: "round_half_even (of_int m) = m"
  by (simp add: round_half_even_def)

lemma round_half_even_ge: "of_int k \<le> y \<Longrightarrow> k \<le> round_half_even y"
proof -
  assume "of_int k \<le> y"
  then have "k \<le> \<lfloor>y\<rfloor>" by (simp add: le_floor_iff)
  then show ?thesis by (simp add: round_half_even_def Let_def)
qed

lemma fl_dyadic:
  assumes "0 < k" and "k < 2 ^ 53" and "j \<le> 1022"
  shows "fl (of_int k / 2 ^ j) = Fin (of_int k / 2 ^ j)"
proof -
  define x :: rat where "x = of_int k / 2 ^ j"
  define e where "e = ilog2 x"
  have xpos: "0 < x" using assms(1) by (simp add: x_def)
  from ilog2_bounds [OF xpos]
  have lo: "pow2 e \<le> x" and hi: "x < pow2 (e + 1)" by (simp_all add: e_def)
  have xk: "x = of_int k * pow2 (- int j)"
    by (simp add: x_def pow2_def)
  have "(of_int k :: rat) < of_int (2 ^ 53)" using assms(2) by (simp only: of_int_less_iff)
  then have "(of_int k :: rat) < 2 ^ 53" by simp
  then have "x < pow2 53 * pow2 (- int j)"
    using pow2_pos [of "- int j"] by (simp add: xk pow2_def)
  then have xhi: "x < pow2 (53 - int j)" by (simp add: pow2_add [symmetric])
  with lo have "pow2 e < pow2 (53 - int j)" by simp
  then have e_hi: "e < 53 - int j" by (rule pow2_less_cancel)
  have "(1::rat) \<le> of_int k" using assms(1) by simp
  then have "pow2 (- int j) \<le> x"
    using pow2_pos [of "- int j"] by (simp add: xk)
  with hi have "pow2 (- int j) < pow2 (e + 1)" by simp
  then have e_lo: "- int j < e + 1" by (rule pow2_less_cancel)
  with assms(3) have emax: "max e (- 1022) = e" by simp
  define n where "n = nat (52 - int j - e)"
  have n: "int n = 52 - int j - e" using e_hi by (simp add: n_def)
  have "x / pow2 (e - 52) = of_int k * pow2 (- int j - (e - 52))"
    by (simp add: xk pow2_diff)
  also have "- int j - (e - 52) = int n" by (simp add: n)
  also have "of_int k * pow2 (int n) = (of_int (k * 2 ^ n) :: rat)" by (simp add: pow2_nat)
  finally have q: "x / pow2 (e - 52) = of_int (k * 2 ^ n)" .
  have r: "of_int (round_half_even (x / pow2 (e - 52))) * pow2 (e - 52) = x"
    unfolding q round_half_even_of_int
    using q pow2_pos [of "e - 52"] by (simp add: field_simps)
  have "pow2 (53 - int j) \<le> pow2 1024" by (rule pow2_mono) simp
  with xhi have small: "\<not> pow2 1024 \<le> x" by simp
  have "fl x = Fin x"
    using xpos small by (simp add: fl_def Let_def e_def [symmetric] emax r)
  then show ?thesis by (simp add: x_def)
qed

lemma fl_of_nat: "n < 2 ^ 53 \<Longrightarrow> fl (of_nat n) = Fin (of_nat n)"
proof (cases "n = 0")
  case True
  then show ?thesis by (simp add: fl_def)
next
  case False
  assume "n < 2 ^ 53"
  then have "int n < int (2 ^ 53)" by (simp only: of_nat_less_iff)
  then have "int n < 2 ^ 53" by simp
  with False fl_dyadic [of "int n" 0] show ?thesis by simp
qed

lemma round_half_even_le: "y \<le> of_int k \<Longrightarrow> round_half_even y \<le> k"
proof -
  assume y: "y \<le> of_int k"
  then have fk: "\<lfloor>y\<rfloor> \<le> k" by (simp add: floor_le_iff)
  show ?thesis
  proof (cases "\<lfloor>y\<rfloor> = k")
    case True
    then have "of_int k \<le> y" using of_int_floor_le [of y] by simp
    with y have "y = of_int k" by simp
    then show ?thesis by (simp add: round_half_even_of_int)
  next
    case False
    with fk have "\<lfloor>y\<rfloor> + 1 \<le> k" by simp
    then show ?thesis by (simp add: round_half_even_def Let_def)
  qed
qed

lemma ilog2_pow2: "ilog2 (pow2 e) = e"
  by (rule ilog2_unique) (simp_all add: pow2_strict_mono)

lemma pow2_52: "pow2 e = 2 ^ 52 * pow2 (e - 52)"
proof -
  have "pow2 e = pow2 (52 + (e - 52))" by (rule arg_cong [where f = pow2]) simp
  also have "\<dots> = pow2 52 * pow2 (e - 52)" by (rule pow2_add)
  finally show ?thesis by (simp add: pow2_def)
qed

lemma pow2_53: "pow2 (e + 1) = 2 ^ 53 * pow2 (e - 52)"
proof -
  have "pow2 (e + 1) = pow2 (53 + (e - 52))" by (rule arg_cong [where f = pow2]) simp
  also have "\<dots> = pow2 53 * pow2 (e - 52)" by (rule pow2_add)
  finally show ?thesis by (simp add: pow2_def)
qed

lemma grid_intro:
  assumes r: "r = of_int m * pow2 (e - 52)"
    and e: "- 1022 \<le> e"
    and m0: "0 \<le> m" and m1: "m \<le> 2 ^ 53"
    and norm: "e = - 1022 \<or> 2 ^ 52 \<le> m"
  shows "grid r"
proof -
  have upos: "0 < pow2 (e - 52)" by (rule pow2_pos)
  consider "m = 0" | "m = 2 ^ 53" | "0 < m" "m < 2 ^ 53" "2 ^ 52 \<le> m" | "0 < m" "m < 2 ^ 52"
    using m0 m1 by linarith
  then show ?thesis
  proof cases
    case 1
    then have "r = of_int 0 * pow2 (max (ilog2 r) (- 1022) - 52)" by (simp add: r)
    then show ?thesis unfolding grid_def by blast
  next
    case 2
    then have rp: "r = pow2 (e + 1)" using pow2_53 [of e] by (simp add: r)
    then have "ilog2 r = e + 1" by (simp add: ilog2_pow2)
    with e have "max (ilog2 r) (- 1022) = e + 1" by simp
    then have "of_int (2 ^ 52) * pow2 (max (ilog2 r) (- 1022) - 52) = 2 ^ 52 * pow2 (e + 1 - 52)"
      by simp
    also have "\<dots> = pow2 (e + 1)" by (rule pow2_52 [symmetric])
    finally have "r = of_int (2 ^ 52) * pow2 (max (ilog2 r) (- 1022) - 52)" by (simp add: rp)
    then show ?thesis unfolding grid_def by blast
  next
    case 3
    have "(of_int (2 ^ 52) :: rat) \<le> of_int m" using 3(3) by (simp only: of_int_le_iff)
    then have "of_int (2 ^ 52) * pow2 (e - 52) \<le> r" using upos by (simp only: r mult_le_cancel_right_pos)
    then have lo: "pow2 e \<le> r" using pow2_52 [of e] by simp
    have "(of_int m :: rat) < of_int (2 ^ 53)" using 3(2) by (simp only: of_int_less_iff)
    then have "r < of_int (2 ^ 53) * pow2 (e - 52)" using upos by (simp only: r mult_less_cancel_right_pos)
    then have hi: "r < pow2 (e + 1)" using pow2_53 [of e] by simp
    from ilog2_unique [OF lo hi] e have "max (ilog2 r) (- 1022) = e" by simp
    with r show ?thesis unfolding grid_def by auto
  next
    case 4
    with norm have e': "e = - 1022" by simp
    have rpos: "0 < r" using 4(1) upos by (simp add: r)
    have "(of_int m :: rat) < of_int (2 ^ 52)" using 4(2) by (simp only: of_int_less_iff)
    then have "r < of_int (2 ^ 52) * pow2 (e - 52)" using upos by (simp only: r mult_less_cancel_right_pos)
    then have hi: "r < pow2 e" using pow2_52 [of e] by simp
    from ilog2_bounds [OF rpos] have "pow2 (ilog2 r) \<le> r" by simp
    with hi have "pow2 (ilog2 r) < pow2 e" by simp
    then have "ilog2 r < e" by (rule pow2_less_cancel)
    with e' have "max (ilog2 r) (- 1022) = e" by simp
    with r show ?thesis unfolding grid_def by auto
  qed
qed

lemma fl_positive:
  assumes "0 < x"
  shows "fl x =
           (let e = max (ilog2 x) (- 1022); u = pow2 (e - 52);
                r = of_int (round_half_even (x / u)) * u
            in if pow2 1024 \<le> r then PosInf else Fin r)"
  using assms by (simp add: fl_def Let_def)

lemma fl_good:
  assumes "0 \<le> x"
  shows "good (fl x)"
proof (cases "x = 0")
  case True
  have "grid 0" unfolding grid_def by (intro exI [of _ 0]) simp
  with True show ?thesis by (simp add: fl_def good_def)
next
  case False
  with assms have xpos: "0 < x" by simp
  define e where "e = max (ilog2 x) (- 1022)"
  define u where "u = pow2 (e - 52)"
  define m where "m = round_half_even (x / u)"
  define r where "r = of_int m * u"
  have upos: "0 < u" by (simp add: u_def pow2_pos)
  have fl: "fl x = (if pow2 1024 \<le> r then PosInf else Fin r)"
    using xpos by (simp add: fl_positive Let_def e_def u_def m_def r_def)
  from ilog2_bounds [OF xpos]
  have lo: "pow2 (ilog2 x) \<le> x" and hi: "x < pow2 (ilog2 x + 1)" by simp_all
  have "(of_int 0 :: rat) \<le> x / u" using xpos upos by simp
  then have m0: "0 \<le> m" unfolding m_def by (rule round_half_even_ge)
  have "pow2 (ilog2 x + 1) \<le> pow2 (e + 1)" by (rule pow2_mono) (simp add: e_def)
  with hi have "x < pow2 (e + 1)" by simp
  then have "x < of_int (2 ^ 53) * u" using pow2_53 [of e] by (simp add: u_def)
  then have "x / u \<le> of_int (2 ^ 53)" using upos by (simp only: pos_divide_le_eq less_imp_le)
  then have m1: "m \<le> 2 ^ 53" unfolding m_def by (rule round_half_even_le)
  have norm: "e = - 1022 \<or> 2 ^ 52 \<le> m"
  proof (cases "e = - 1022")
    case True
    then show ?thesis by simp
  next
    case False
    then have "e = ilog2 x" by (simp add: e_def max_def split: if_splits)
    with lo have "pow2 e \<le> x" by simp
    then have "of_int (2 ^ 52) * u \<le> x" using pow2_52 [of e] by (simp add: u_def)
    then have "of_int (2 ^ 52) \<le> x / u" using upos by (simp only: pos_le_divide_eq)
    then have "2 ^ 52 \<le> m" unfolding m_def by (rule round_half_even_ge)
    then show ?thesis by simp
  qed
  have e: "- 1022 \<le> e" by (simp add: e_def)
  have "grid r"
    by (rule grid_intro [OF _ e m0 m1 norm]) (simp add: r_def u_def)
  moreover have "0 \<le> r" using m0 upos by (simp add: r_def)
  ultimately show ?thesis by (simp add: fl good_def)
qed


lemma ilog2_mono:
  assumes "0 < a" and "a \<le> x"
  shows "ilog2 a \<le> ilog2 x"
proof -
  from assms have xpos: "0 < x" by simp
  from ilog2_bounds [OF assms(1)] have "pow2 (ilog2 a) \<le> a" by simp
  moreover from ilog2_bounds [OF xpos] have "x < pow2 (ilog2 x + 1)" by simp
  ultimately have "pow2 (ilog2 a) < pow2 (ilog2 x + 1)" using assms(2) by simp
  then have "ilog2 a < ilog2 x + 1" by (rule pow2_less_cancel)
  then show ?thesis by simp
qed

lemma fl_lower:
  assumes a0: "0 \<le> a" and ga: "grid a" and ax: "a \<le> x"
  shows "\<not> num_less (fl x) (Fin a)"
proof (cases "a = 0")
  case True
  from a0 ax have "0 \<le> x" by simp
  from fl_good [OF this] True show ?thesis
    by (cases "fl x") (simp_all add: good_def)
next
  case False
  with a0 have apos: "0 < a" by simp
  with ax have xpos: "0 < x" by simp
  define ea where "ea = max (ilog2 a) (- 1022)"
  define e where "e = max (ilog2 x) (- 1022)"
  define u where "u = pow2 (e - 52)"
  define m where "m = round_half_even (x / u)"
  define r where "r = of_int m * u"
  have upos: "0 < u" by (simp add: u_def pow2_pos)
  have fl: "fl x = (if pow2 1024 \<le> r then PosInf else Fin r)"
    using xpos by (simp add: fl_positive Let_def e_def u_def m_def r_def)
  from ga obtain ma :: int where ma: "a = of_int ma * pow2 (ea - 52)"
    unfolding grid_def ea_def by blast
  have ee: "ea \<le> e" using ilog2_mono [OF apos ax] by (simp add: ea_def e_def)
  have "a \<le> r"
  proof (cases "ea = e")
    case True
    then have "a = of_int ma * u" by (simp add: ma u_def)
    with ax have "of_int ma * u \<le> x" by simp
    then have "of_int ma \<le> x / u" using upos by (simp only: pos_le_divide_eq)
    then have "ma \<le> m" unfolding m_def by (rule round_half_even_ge)
    then have "(of_int ma :: rat) \<le> of_int m" by (simp only: of_int_le_iff)
    then have "of_int ma * u \<le> of_int m * u" using upos by (simp only: mult_le_cancel_right_pos)
    then show ?thesis by (simp add: r_def \<open>a = of_int ma * u\<close>)
  next
    case False
    with ee have lt: "ea < e" by simp
    then have ex: "e = ilog2 x" by (simp add: e_def ea_def max_def split: if_splits)
    have "ilog2 a + 1 \<le> e" using lt by (simp add: ea_def)
    then have "pow2 (ilog2 a + 1) \<le> pow2 e" by (rule pow2_mono)
    moreover from ilog2_bounds [OF apos] have "a < pow2 (ilog2 a + 1)" by simp
    ultimately have ae: "a < pow2 e" by simp
    from ilog2_bounds [OF xpos] have "pow2 e \<le> x" by (simp add: ex)
    then have "of_int (2 ^ 52) * u \<le> x" using pow2_52 [of e] by (simp add: u_def)
    then have "of_int (2 ^ 52) \<le> x / u" using upos by (simp only: pos_le_divide_eq)
    then have "2 ^ 52 \<le> m" unfolding m_def by (rule round_half_even_ge)
    then have "(of_int (2 ^ 52) :: rat) \<le> of_int m" by (simp only: of_int_le_iff)
    then have "of_int (2 ^ 52) * u \<le> of_int m * u"
      using upos by (simp only: mult_le_cancel_right_pos)
    then have "pow2 e \<le> r" using pow2_52 [of e] by (simp add: r_def u_def)
    with ae show ?thesis by simp
  qed
  then show ?thesis by (simp add: fl)
qed

lemma good_nonneg: "good v \<Longrightarrow> nonneg v"
  by (cases v) (simp_all add: good_def nonneg_def)

lemma nonneg_to_number: "nonneg (to_number n)"
  unfolding to_number_def nonneg_def by (simp only: number.case of_nat_0_le_iff)

lemma nonneg_num_div:
  assumes "nonneg a" and "nonneg b"
  shows "nonneg (num_div a b)"
proof (cases a)
  case (Fin x)
  show ?thesis
  proof (cases b)
    case (Fin y)
    show ?thesis
    proof (cases "y = 0")
      case True
      with assms \<open>a = Fin x\<close> Fin show ?thesis by (simp add: nonneg_def)
    next
      case False
      from assms \<open>a = Fin x\<close> Fin have "0 \<le> x / y" by (simp add: nonneg_def)
      from fl_good [OF this] False \<open>a = Fin x\<close> Fin show ?thesis
        by (simp add: good_nonneg)
    qed
  qed (use assms Fin in \<open>simp_all add: nonneg_def\<close>)
next
  case PosInf
  with assms show ?thesis by (cases b) (simp_all add: nonneg_def)
next
  case NegInf
  with assms show ?thesis by (simp add: nonneg_def)
next
  case NaN
  then show ?thesis by (simp add: nonneg_def)
qed

lemma nonneg_num_mul:
  assumes "nonneg a" and "nonneg b"
  shows "nonneg (num_mul a b)"
proof (cases a)
  case (Fin x)
  show ?thesis
  proof (cases b)
    case (Fin y)
    from assms \<open>a = Fin x\<close> Fin have "0 \<le> x * y" by (simp add: nonneg_def)
    from fl_good [OF this] \<open>a = Fin x\<close> Fin show ?thesis
      by (simp add: good_nonneg)
  qed (use assms Fin in \<open>simp_all add: nonneg_def\<close>)
next
  case PosInf
  with assms show ?thesis by (cases b) (simp_all add: nonneg_def)
next
  case NegInf
  with assms show ?thesis by (simp add: nonneg_def)
next
  case NaN
  then show ?thesis by (simp add: nonneg_def)
qed

lemma num_add_good:
  assumes "good a" and "nonneg s"
  shows "good (num_add a s) \<and> \<not> num_less (num_add a s) a"
proof (cases a)
  case (Fin x)
  show ?thesis
  proof (cases s)
    case (Fin y)
    from assms \<open>a = Fin x\<close> Fin have x: "0 \<le> x" "grid x" and y: "0 \<le> y"
      by (simp_all add: good_def nonneg_def)
    then have "0 \<le> x + y" and "x \<le> x + y" by simp_all
    with fl_good [of "x + y"] fl_lower [OF x, of "x + y"] \<open>a = Fin x\<close> Fin
    show ?thesis by simp
  qed (use assms Fin in \<open>simp_all add: good_def nonneg_def\<close>)
next
  case PosInf
  with assms show ?thesis by (cases s) (simp_all add: good_def nonneg_def)
next
  case NegInf
  with assms show ?thesis by (simp add: good_def)
next
  case NaN
  then show ?thesis by (simp add: good_def)
qed

lemma foldl_num_add_good:
  "good t \<Longrightarrow> \<forall>s \<in> set ss. nonneg s \<Longrightarrow> good (foldl num_add t ss)"
  by (induction ss arbitrary: t) (simp_all add: num_add_good)


lemma grid_0: "grid 0"
  unfolding grid_def by (intro exI [of _ 0]) simp

lemma grid_1: "grid 1"
proof -
  have "(1::rat) = of_int (2 ^ 52) * pow2 (0 - 52)" using pow2_52 [of 0] by (simp add: pow2_0)
  moreover have "(- 1022 :: int) \<le> 0" "(0::int) \<le> 2 ^ 52" "(2 ^ 52 :: int) \<le> 2 ^ 53"
    "(0::int) = - 1022 \<or> (2 ^ 52 :: int) \<le> 2 ^ 52"
    by simp_all
  ultimately show ?thesis by (rule grid_intro)
qed

lemma fl_not_NaN: "fl x \<noteq> NaN"
  by (simp add: fl_def Let_def)

lemma fl_increase:
  assumes x0: "0 \<le> x" and gx: "grid x" and x53: "x < 2 ^ 53" and y: "1 \<le> y"
  shows "num_less (Fin x) (fl (x + y))"
proof -
  have "\<exists>a. grid a \<and> x < a \<and> a \<le> x + 1"
  proof (cases "x = 0")
    case True
    with grid_1 show ?thesis by (intro exI [of _ 1]) simp
  next
    case False
    with x0 have xpos: "0 < x" by simp
    define e where "e = max (ilog2 x) (- 1022)"
    define u where "u = pow2 (e - 52)"
    have upos: "0 < u" by (simp add: u_def pow2_pos)
    from gx obtain m :: int where m: "x = of_int m * u"
      unfolding grid_def e_def u_def by blast
    from ilog2_bounds [OF xpos]
    have lo: "pow2 (ilog2 x) \<le> x" and hi: "x < pow2 (ilog2 x + 1)" by simp_all
    have "pow2 (ilog2 x) < pow2 53" using lo x53 by (simp add: pow2_def)
    then have "ilog2 x < 53" by (rule pow2_less_cancel)
    then have e52: "e \<le> 52" by (simp add: e_def)
    then have "pow2 (e - 52) \<le> pow2 0" by (intro pow2_mono) simp
    then have u1: "u \<le> 1" by (simp add: u_def pow2_0)
    have "of_int m * u > 0" using xpos m by simp
    then have "(0::rat) < of_int m" using upos by (simp add: zero_less_mult_iff)
    then have m0: "0 < m" by simp
    have "pow2 (ilog2 x + 1) \<le> pow2 (e + 1)" by (rule pow2_mono) (simp add: e_def)
    with hi have "x < pow2 (e + 1)" by simp
    then have "of_int m * u < of_int (2 ^ 53) * u" using pow2_53 [of e] by (simp add: m u_def)
    then have "(of_int m :: rat) < of_int (2 ^ 53)" using upos by (simp only: mult_less_cancel_right_pos)
    then have m1: "m < 2 ^ 53" by (simp only: of_int_less_iff)
    have norm: "e = - 1022 \<or> 2 ^ 52 \<le> m + 1"
    proof (cases "e = - 1022")
      case True
      then show ?thesis by simp
    next
      case False
      then have "e = ilog2 x" by (simp add: e_def max_def split: if_splits)
      with lo have "pow2 e \<le> x" by simp
      then have "of_int (2 ^ 52) * u \<le> of_int m * u" using pow2_52 [of e] by (simp add: m u_def)
      then have "(of_int (2 ^ 52) :: rat) \<le> of_int m" using upos by (simp only: mult_le_cancel_right_pos)
      then have "2 ^ 52 \<le> m" by (simp only: of_int_le_iff)
      then show ?thesis by simp
    qed
    have e: "- 1022 \<le> e" by (simp add: e_def)
    have eq: "x + u = of_int (m + 1) * pow2 (e - 52)" by (simp add: m u_def algebra_simps)
    have "grid (x + u)"
      using eq e _ _ norm by (rule grid_intro) (use m0 m1 in simp_all)
    moreover have "x < x + u" using upos by simp
    moreover have "x + u \<le> x + 1" using u1 by simp
    ultimately show ?thesis by blast
  qed
  then obtain a where a: "grid a" "x < a" "a \<le> x + 1" by blast
  with x0 y have "0 \<le> a" "a \<le> x + y" by simp_all
  from fl_lower [OF this(1) a(1) this(2)] a(2) fl_not_NaN [of "x + y"]
  show ?thesis by (cases "fl (x + y)") simp_all
qed

section \<open>Concrete runs\<close>

lemma fl_samples:
  "fl 0 = Fin 0" "fl 1 = Fin 1" "fl 2 = Fin 2" "fl 25 = Fin 25" "fl 50 = Fin 50" "fl 75 = Fin 75"
  "fl (1 / 2) = Fin (1 / 2)" "fl (3 / 2) = Fin (3 / 2)" "fl (5 / 2) = Fin (5 / 2)"
  using fl_dyadic [of 1 0] fl_dyadic [of 2 0] fl_dyadic [of 25 0] fl_dyadic [of 50 0]
    fl_dyadic [of 75 0] fl_dyadic [of 1 1] fl_dyadic [of 3 1] fl_dyadic [of 5 1]
  by (simp_all add: fl_def)

lemma floor_5_2: "\<lfloor>5 / 2 :: rat\<rfloor> = 2"
  by (simp add: floor_eq_iff)

lemmas run_defs =
  stitch_to_data_url_def sample_platform_def upload_def fresh_world_def
  sample_decode_def loadImage_def createObjectURL_def layout_def to_number_def
  new_canvas_def paint_def reflect_unsigned_long_def to_unsigned_long_def Let_def

lemma sample_run_ab:
  "stitch_to_data_url (sample_platform codec) [upload ''a'', upload ''b''] fresh_world =
     (Inr ([image_a, image_b], Fin 100, Fin 75, ''jpeg''),
      \<lparr>next_url = 2, object_urls = [0, 1],
       canvases =
         [\<lparr>c_width = 100, c_height = 75, fillStyle = ''#FFFFFF'',
           drawn =
             [FillRect ''#FFFFFF'' (Fin 0) (Fin 0) (Fin 100) (Fin 75),
              DrawImage image_a (Fin 0) (Fin 0) (Fin 100) (Fin 50),
              DrawImage image_b (Fin 0) (Fin 50) (Fin 100) (Fin 25)]\<rparr>],
       console = []\<rparr>)"
  by (simp add: run_defs image_a_def image_b_def fl_samples)


section \<open>Loading\<close>

lemma loadImage_world: "snd (loadImage P f w) = snd (createObjectURL w)"
  by (simp add: loadImage_def split: prod.splits option.splits)

lemma loadImage_canvases: "canvases (snd (loadImage P f w)) = canvases w"
  by (simp add: loadImage_world createObjectURL_def)

lemma loadImage_console: "console (snd (loadImage P f w)) = console w"
  by (simp add: loadImage_world createObjectURL_def)

lemma map_loadImage_canvases: "canvases (snd (map_loadImage P fs w)) = canvases w"
proof (induction fs arbitrary: w)
  case Nil
  show ?case by simp
next
  case (Cons f fs)
  have "canvases (snd (map_loadImage P fs (snd (loadImage P f w)))) = canvases w"
    by (simp add: Cons.IH loadImage_canvases)
  then show ?case by (simp add: split_beta)
qed

lemma map_loadImage_console: "console (snd (map_loadImage P fs w)) = console w"
proof (induction fs arbitrary: w)
  case Nil
  show ?case by simp
next
  case (Cons f fs)
  have "console (snd (map_loadImage P fs (snd (loadImage P f w)))) = console w"
    by (simp add: Cons.IH loadImage_console)
  then show ?case by (simp add: split_beta)
qed

lemma loadImage_result:
  "fst (loadImage P f w) =
     (case decode P f of
        None \<Rightarrow> Inl LoadEvent
      | Some (nw, nh, px) \<Rightarrow>
          Inr \<lparr>naturalWidth = nw, naturalHeight = nh, src = next_url w, pixels = px\<rparr>)"
  by (simp add: loadImage_def createObjectURL_def split: option.splits)

lemma map_loadImage_failure:
  "f \<in> set fs \<Longrightarrow> decode P f = None \<Longrightarrow> Inl LoadEvent \<in> set (fst (map_loadImage P fs w))"
proof (induction fs arbitrary: w)
  case Nil
  then show ?case by simp
next
  case (Cons g fs)
  show ?case
  proof (cases "f = g")
    case True
    with Cons.prems have "fst (loadImage P g w) = Inl LoadEvent"
      by (simp add: loadImage_result)
    then show ?thesis by (simp add: split_beta)
  next
    case False
    with Cons.prems have "f \<in> set fs" by simp
    from Cons.IH [OF this Cons.prems(2)] show ?thesis by (simp add: split_beta)
  qed
qed

lemma map_loadImage_errors:
  "Inl e \<in> set (fst (map_loadImage P fs w)) \<Longrightarrow> e = LoadEvent"
proof (induction fs arbitrary: w)
  case Nil
  then show ?case by simp
next
  case (Cons g fs)
  then show ?case
    by (auto simp: split_beta loadImage_result split: option.splits)
qed

lemma Promise_all_rejects:
  "Inl e \<in> set rs \<Longrightarrow> \<exists>e'. Promise_all rs = Inl e' \<and> Inl e' \<in> set rs"
proof (induction rs rule: Promise_all.induct)
  case 1
  then show ?case by simp
next
  case (2 e' rs)
  then show ?case by simp
next
  case (3 x rs)
  then show ?case by (auto split: sum.splits)
qed

lemma stitchImages_rejected:
  assumes "uploadedImages \<noteq> []"
    and "Promise_all (fst (map_loadImage P (map u_file uploadedImages) w)) = Inl e"
  shows "stitchImages P uploadedImages w =
           (Inl e, snd (map_loadImage P (map u_file uploadedImages) w))"
  using assms by (simp add: stitchImages_def stitch_to_data_url_def split_beta)

section \<open>After the encoding\<close>

lemma stitch_to_data_url_console: "console (snd (stitch_to_data_url P us w)) = console w"
  by (simp add: stitch_to_data_url_def split_beta Let_def map_loadImage_console
      split: sum.splits list.splits option.splits)

lemma fold_revoke_console:
  "console (fold (\<lambda>i. revokeObjectURL (src i)) is w) = console w"
  by (induction "is" arbitrary: w) (simp_all add: revokeObjectURL_def)

lemma export_result_fetched:
  assumes "fetch P finalDataUrl"
  shows "\<exists>r w'. export_result P is tw th finalDataUrl w = (Inr r, w') \<and>
           blob r = Some (Blob finalDataUrl) \<and> width r = tw \<and> height r = Math_round th \<and>
           console w' = console w"
  using assms
  by (simp add: export_result_def createObjectURL_def split_beta Let_def fold_revoke_console)

lemma stitchImages_continue:
  assumes "stitch_to_data_url P us w = (Inr (is, tw, th, s), w')"
    and "process_exif P (u_file (hd us)) s = Inr (fin, msgs)"
  shows "stitchImages P us w =
           export_result P is tw th fin (w'\<lparr>console := console w' @ msgs\<rparr>)"
  using assms by (simp add: stitchImages_def)

lemma process_exif_unreadable:
  "readAsDataURL P f = None \<Longrightarrow>
     process_exif P f s = Inr (s, [ErrorLog ''Error while processing EXIF''])"
  by (simp add: process_exif_def exif_outer_try_def readFileAsDataURL_def)

lemma process_exif_no_codec:
  "readAsDataURL P f = Some d \<Longrightarrow> window_piexif P = None \<Longrightarrow>
     process_exif P f s = Inr (s, [Warn ''Piexifjs not found. EXIF data will not be kept.''])"
  by (simp add: process_exif_def exif_outer_try_def readFileAsDataURL_def)

lemma process_exif_codec:
  "readAsDataURL P f = Some d \<Longrightarrow> window_piexif P = Some codec \<Longrightarrow>
     process_exif P f s =
       (case exif_try codec d s of
          Inl e \<Rightarrow> Inr (s, [Warn ''Could not extract or insert EXIF data''])
        | Inr r \<Rightarrow> Inr r)"
  by (simp add: process_exif_def exif_outer_try_def readFileAsDataURL_def split: sum.splits)

lemma exif_try_failure:
  assumes "piexif_load codec d = Inl e \<or>
           (\<exists>v. piexif_load codec d = Inr v \<and> typeof v = ''object'' \<and>
              (piexif_dump codec v = Inl e \<or>
               (\<exists>seg. piexif_dump codec v = Inr seg \<and> piexif_insert codec seg s = Inl e)))"
  shows "exif_try codec d s = Inl e"
  using assms by (auto simp: exif_try_def)

lemma sample_platform_simps:
  "readAsDataURL (sample_platform codec) f = Some f"
  "window_piexif (sample_platform codec) = codec"
  "fetch (sample_platform codec) s"
  "getContext (sample_platform codec) cw ch"
  "toDataURL (sample_platform codec) cv = Some ''jpeg''"
  by (simp_all add: sample_platform_def)

lemma upload_file: "u_file (upload f) = f"
  by (simp add: upload_def)

lemma floor_151_2: "\<lfloor>151 / 2 :: rat\<rfloor> = 75"
  by (simp add: floor_eq_iff)

lemma sample_result_ab:
  "export_result (sample_platform codec) [image_a, image_b] (Fin 100) (Fin 75) fin w =
   (Inr \<lparr>blob = Some (Blob fin), url = next_url w, movUrl = None, jpgUrl = None,
          width = Fin 100, height = Fin 75, isLivePhoto = None\<rparr>,
    w\<lparr>next_url := Suc (next_url w),
      object_urls := removeAll 1 (removeAll 0 (object_urls w @ [next_url w]))\<rparr>)"
  by (simp add: export_result_def sample_platform_simps createObjectURL_def revokeObjectURL_def
      image_a_def image_b_def floor_151_2)

lemma map_loadImage_read:
  "map_loadImage (P\<lparr>readAsDataURL := g\<rparr>) fs w = map_loadImage P fs w"
  by (induction fs arbitrary: w) (simp_all add: loadImage_def)

lemma stitch_to_data_url_read:
  "stitch_to_data_url (P\<lparr>readAsDataURL := g\<rparr>) us w = stitch_to_data_url P us w"
  by (simp add: stitch_to_data_url_def map_loadImage_read Let_def
      split: prod.splits sum.splits list.splits option.splits)

lemma process_exif_read:
  assumes "g f = readAsDataURL P f"
  shows "process_exif (P\<lparr>readAsDataURL := g\<rparr>) f s = process_exif P f s"
  using assms
  by (simp add: process_exif_def exif_outer_try_def readFileAsDataURL_def
      split: option.splits sum.splits)

lemma export_result_read:
  "export_result (P\<lparr>readAsDataURL := g\<rparr>) is tw th fin w = export_result P is tw th fin w"
  by (simp add: export_result_def)

lemma stitchImages_read:
  assumes "g (u_file (hd us)) = readAsDataURL P (u_file (hd us))"
  shows "stitchImages (P\<lparr>readAsDataURL := g\<rparr>) us w = stitchImages P us w"
  using assms
  by (simp add: stitchImages_def stitch_to_data_url_read process_exif_read export_result_read
      split: prod.splits sum.splits)

lemma sample_run_cd:
  "stitch_to_data_url (sample_platform codec) [upload ''c'', upload ''d''] fresh_world =
     (Inr ([image_c, image_d], Fin 2, Fin (5 / 2), ''jpeg''),
      \<lparr>next_url = 2, object_urls = [0, 1],
       canvases =
         [\<lparr>c_width = 2, c_height = 2, fillStyle = ''#FFFFFF'',
           drawn =
             [FillRect ''#FFFFFF'' (Fin 0) (Fin 0) (Fin 2) (Fin 2),
              DrawImage image_c (Fin 0) (Fin 0) (Fin 2) (Fin 1),
              DrawImage image_d (Fin 0) (Fin 1) (Fin 2) (Fin (3 / 2))]\<rparr>],
       console = []\<rparr>)"
  by (simp add: run_defs image_c_def image_d_def fl_samples floor_5_2)

lemma imageDrawData_closed:
  "imageDrawData tw t is =
     (map (\<lambda>i. \<lparr>img = i,
                 scaledHeight = num_mul (to_number (naturalHeight i)) (num_div tw (to_number (naturalWidth i))),
                 scaleFactor = num_div tw (to_number (naturalWidth i))\<rparr>) is,
      foldl num_add t
        (map (\<lambda>i. num_mul (to_number (naturalHeight i)) (num_div tw (to_number (naturalWidth i)))) is))"
  by (induction "is" arbitrary: t) (simp_all add: Let_def)

lemma stitch_to_data_url_layout:
  assumes "stitch_to_data_url P us w = (Inr (is, tw, th, s), w')"
  shows "\<exists>first rest. is = first # rest \<and>
           tw = fst (layout first is) \<and> th = snd (snd (layout first is)) \<and>
           canvases w' = canvases w @ [paint tw (fst (snd (layout first is))) (new_canvas tw th)]"
  using assms
  by (auto simp: stitch_to_data_url_def Let_def split_beta map_loadImage_canvases
      split: if_splits sum.splits list.splits option.splits)

lemma Promise_all_Inr: "Promise_all rs = Inr xs \<Longrightarrow> rs = map Inr xs"
proof (induction rs arbitrary: xs rule: Promise_all.induct)
  case 1
  then show ?case by simp
next
  case (2 e rs)
  then show ?case by simp
next
  case (3 x rs)
  then show ?case by (auto split: sum.splits)
qed

lemma map_loadImage_decoded:
  "fst (map_loadImage P fs w) = map Inr is \<Longrightarrow>
     map (decode P) fs = map (\<lambda>i. Some (naturalWidth i, naturalHeight i, pixels i)) is"
proof (induction fs arbitrary: w "is")
  case Nil
  then show ?case by simp
next
  case (Cons f fs)
  from Cons.prems obtain i is' where "is": "is = i # is'"
    by (cases "is") (simp_all add: split_beta)
  with Cons.prems have 1: "fst (loadImage P f w) = Inr i"
    and 2: "fst (map_loadImage P fs (snd (loadImage P f w))) = map Inr is'"
    by (simp_all add: split_beta)
  from 1 have "decode P f = Some (naturalWidth i, naturalHeight i, pixels i)"
    by (auto simp: loadImage_result split: option.splits)
  with Cons.IH [OF 2] show ?case by (simp add: "is")
qed

lemma stitch_to_data_url_loaded:
  assumes "stitch_to_data_url P us w = (Inr (is, tw, th, s), w')"
  shows "Promise_all (fst (map_loadImage P (map u_file us) w)) = Inr is"
  using assms
  by (auto simp: stitch_to_data_url_def Let_def split_beta
      split: if_splits sum.splits list.splits option.splits)

lemma draw_images_closed:
  "draw_images tw c
     (map (\<lambda>i. \<lparr>img = i, scaledHeight = spec_scaledHeight tw i,
                 scaleFactor = num_div tw (to_number (naturalWidth i))\<rparr>) is) =
   map (\<lambda>k. DrawImage (is ! k) (Fin 0)
               (foldl num_add c (map (spec_scaledHeight tw) (take k is))) tw
               (spec_scaledHeight tw (is ! k)))
     [0..<length is]"
proof (induction "is" arbitrary: c)
  case Nil
  show ?case by simp
next
  case (Cons i "is")
  show ?case
    by (simp add: Cons.IH map_upt_Suc del: upt_Suc)
qed

lemma spec_yOffset_Suc:
  "k < length is \<Longrightarrow>
     spec_yOffset tw is (Suc k) = num_add (spec_yOffset tw is k) (spec_scaledHeight tw (is ! k))"
  by (simp add: spec_yOffset_def take_Suc_conv_app_nth)

lemma good_spec_yOffset:
  assumes "nonneg tw"
  shows "good (spec_yOffset tw is k)"
  unfolding spec_yOffset_def
proof (rule foldl_num_add_good)
  show "good (Fin 0)" by (simp add: good_def grid_0)
  show "\<forall>s \<in> set (map (spec_scaledHeight tw) (take k is)). nonneg s"
    using assms by (auto simp: spec_scaledHeight_def nonneg_num_mul nonneg_num_div nonneg_to_number)
qed


section \<open>Empty input\<close>

text \<open>
  C9. Called with an empty list, the stitch operation fails with an error and does
  nothing else: no object URL and no canvas is created, nothing is written to the console,
  and no result is returned.
\<close>

theorem stitchImages_empty:
  "stitchImages P [] w = (Inl (Error ''no images to stitch''), w)"
  by (simp add: stitchImages_def stitch_to_data_url_def)

section \<open>Decode failure\<close>

text \<open>
  C6. If one of the uploaded files fails to decode, the stitch operation ends with the
  rejection of the load step and returns no result; the canvases in existence are those
  that existed before the call, so none was created or drawn on.
\<close>

theorem decode_failure_aborts:
  assumes "u \<in> set uploadedImages" and "decode P (u_file u) = None"
  shows "fst (stitchImages P uploadedImages w) = Inl LoadEvent \<and>
         canvases (snd (stitchImages P uploadedImages w)) = canvases w"
proof -
  let ?fs = "map u_file uploadedImages"
  let ?rs = "fst (map_loadImage P ?fs w)"
  from assms have "Inl LoadEvent \<in> set ?rs"
    by (intro map_loadImage_failure [where f = "u_file u"]) auto
  then obtain e' where e': "Promise_all ?rs = Inl e'" "Inl e' \<in> set ?rs"
    using Promise_all_rejects by blast
  then have "e' = LoadEvent" using map_loadImage_errors by blast
  with e' have all: "Promise_all ?rs = Inl LoadEvent" by simp
  from assms(1) have ne: "uploadedImages \<noteq> []" by auto
  show ?thesis
    by (simp add: stitchImages_rejected [OF ne all] map_loadImage_canvases)
qed

theorem decode_failure_aborts_witness:
  "upload ''x'' \<in> set [upload ''a'', upload ''x''] \<and>
   decode (sample_platform None) (u_file (upload ''x'')) = None \<and>
   fst (stitchImages (sample_platform None) [upload ''a'', upload ''x''] fresh_world) = Inl LoadEvent \<and>
   canvases (snd (stitchImages (sample_platform None) [upload ''a'', upload ''x''] fresh_world)) = []"
  using decode_failure_aborts [of "upload ''x''" "[upload ''a'', upload ''x'']" "sample_platform None"
      "fresh_world :: string world"]
  by (simp add: sample_platform_def sample_decode_def upload_def fresh_world_def)

section \<open>Absent codec\<close>

text \<open>
  C10. If the page has no \<open>window.piexif\<close>, a run whose steps 1 to 5 succeed, whose first
  file can be read and whose encoded data URL can be fetched returns a result; its blob holds
  the encoded composite as it is, and the only console output is one warning.
\<close>

theorem codec_absent_still_succeeds:
  assumes "stitch_to_data_url P uploadedImages w =
             (Inr (loadedImages, targetWidth, totalHeight, stitchedDataUrl), w')"
    and "readAsDataURL P (u_file (hd uploadedImages)) = Some firstImageDataUrl"
    and "window_piexif P = None"
    and "fetch P stitchedDataUrl"
  shows "\<exists>r w''. stitchImages P uploadedImages w = (Inr r, w'') \<and>
           blob r = Some (Blob stitchedDataUrl) \<and>
           console w'' = console w @ [Warn ''Piexifjs not found. EXIF data will not be kept.'']"
proof -
  let ?msgs = "[Warn ''Piexifjs not found. EXIF data will not be kept.'']"
  have ex: "process_exif P (u_file (hd uploadedImages)) stitchedDataUrl = Inr (stitchedDataUrl, ?msgs)"
    using assms(2,3) by (rule process_exif_no_codec)
  have c: "console w' = console w"
    using stitch_to_data_url_console [of P uploadedImages w] assms(1) by simp
  from export_result_fetched [OF assms(4), of loadedImages targetWidth totalHeight
      "w'\<lparr>console := console w' @ ?msgs\<rparr>"]
  obtain r w'' where
    "export_result P loadedImages targetWidth totalHeight stitchedDataUrl
       (w'\<lparr>console := console w' @ ?msgs\<rparr>) = (Inr r, w'')"
    and "blob r = Some (Blob stitchedDataUrl)" and "console w'' = console w' @ ?msgs"
    by auto
  then show ?thesis
    using stitchImages_continue [OF assms(1) ex] c by simp
qed

theorem codec_absent_still_succeeds_witness:
  "window_piexif (sample_platform None :: (string, string) platform) = None \<and>
   (\<exists>r w''. stitchImages (sample_platform None) [upload ''a'', upload ''b''] fresh_world = (Inr r, w'') \<and>
      blob r = Some (Blob ''jpeg'') \<and>
      console w'' = [Warn ''Piexifjs not found. EXIF data will not be kept.''])"
proof -
  have 1: "readAsDataURL (sample_platform None :: (string, string) platform)
             (u_file (hd [upload ''a'', upload ''b''])) = Some ''a''"
    by (simp add: sample_platform_def upload_def)
  have 2: "window_piexif (sample_platform None :: (string, string) platform) = None"
    by (simp add: sample_platform_def)
  have 3: "fetch (sample_platform None :: (string, string) platform) ''jpeg''"
    by (simp add: sample_platform_def)
  from codec_absent_still_succeeds [OF sample_run_ab 1 2 3] 2
  show ?thesis by (simp add: fresh_world_def)
qed

section \<open>Metadata failures\<close>

text \<open>
  C2. Whenever step 6 cannot transplant the metadata (the first file cannot be read, the
  page has no codec, or the codec throws while parsing the first image, while serializing
  the parsed value or while inserting the segment), the step itself ends normally with
  \<open>finalDataUrl\<close> still equal to \<open>stitchedDataUrl\<close>, the run goes on to the export with
  these bytes, and, when they can be fetched, the result's blob holds the encoded composite
  unmodified. No error of the metadata step leaves \<open>stitchImages\<close>.
\<close>

theorem metadata_failure_is_recovered:
  assumes "stitch_to_data_url P uploadedImages w =
             (Inr (loadedImages, targetWidth, totalHeight, stitchedDataUrl), w')"
    and "readAsDataURL P (u_file (hd uploadedImages)) = None \<or>
         window_piexif P = None \<or>
         (\<exists>codec d e.
            window_piexif P = Some codec \<and>
            readAsDataURL P (u_file (hd uploadedImages)) = Some d \<and>
            (piexif_load codec d = Inl e \<or>
             (\<exists>v. piexif_load codec d = Inr v \<and> typeof v = ''object'' \<and>
                (piexif_dump codec v = Inl e \<or>
                 (\<exists>seg. piexif_dump codec v = Inr seg \<and>
                    piexif_insert codec seg stitchedDataUrl = Inl e)))))"
  shows "\<exists>msgs.
           process_exif P (u_file (hd uploadedImages)) stitchedDataUrl = Inr (stitchedDataUrl, msgs) \<and>
           stitchImages P uploadedImages w =
             export_result P loadedImages targetWidth totalHeight stitchedDataUrl
               (w'\<lparr>console := console w' @ msgs\<rparr>) \<and>
           (fetch P stitchedDataUrl \<longrightarrow>
              (\<exists>r w''. stitchImages P uploadedImages w = (Inr r, w'') \<and>
                 blob r = Some (Blob stitchedDataUrl)))"
proof -
  let ?f = "u_file (hd uploadedImages)"
  have "\<exists>msgs. process_exif P ?f stitchedDataUrl = Inr (stitchedDataUrl, msgs)"
  proof (cases "readAsDataURL P ?f")
    case None
    then show ?thesis by (simp add: process_exif_unreadable)
  next
    case (Some d)
    show ?thesis
    proof (cases "window_piexif P")
      case None
      with Some show ?thesis by (simp add: process_exif_no_codec)
    next
      case (Some codec)
      with assms(2) \<open>readAsDataURL P ?f = Some d\<close>
      obtain e where
        "piexif_load codec d = Inl e \<or>
         (\<exists>v. piexif_load codec d = Inr v \<and> typeof v = ''object'' \<and>
            (piexif_dump codec v = Inl e \<or>
             (\<exists>seg. piexif_dump codec v = Inr seg \<and>
                piexif_insert codec seg stitchedDataUrl = Inl e)))"
        by auto
      then have "exif_try codec d stitchedDataUrl = Inl e" by (rule exif_try_failure)
      with Some \<open>readAsDataURL P ?f = Some d\<close> show ?thesis
        by (simp add: process_exif_codec)
    qed
  qed
  then obtain msgs where
    ex: "process_exif P ?f stitchedDataUrl = Inr (stitchedDataUrl, msgs)" ..
  note run = stitchImages_continue [OF assms(1) ex]
  have "fetch P stitchedDataUrl \<longrightarrow>
          (\<exists>r w''. stitchImages P uploadedImages w = (Inr r, w'') \<and>
             blob r = Some (Blob stitchedDataUrl))"
  proof
    assume "fetch P stitchedDataUrl"
    from export_result_fetched [OF this] run show
      "\<exists>r w''. stitchImages P uploadedImages w = (Inr r, w'') \<and>
         blob r = Some (Blob stitchedDataUrl)"
      by metis
  qed
  with ex run show ?thesis by blast
qed

theorem metadata_failure_is_recovered_witness:
  "piexif_load failing_codec ''a'' = Inl (CodecError ''cannot parse'') \<and>
   (\<exists>r w''. stitchImages (sample_platform (Some failing_codec)) [upload ''a'', upload ''b'']
               fresh_world = (Inr r, w'') \<and>
      blob r = Some (Blob ''jpeg''))"
proof -
  let ?P = "sample_platform (Some failing_codec)"
  have load: "piexif_load failing_codec ''a'' = Inl (CodecError ''cannot parse'')"
    by (simp add: failing_codec_def)
  have "window_piexif ?P = Some failing_codec \<and>
        readAsDataURL ?P (u_file (hd [upload ''a'', upload ''b''])) = Some ''a'' \<and>
        piexif_load failing_codec ''a'' = Inl (CodecError ''cannot parse'')"
    by (simp add: sample_platform_simps upload_file load)
  then have failure:
    "readAsDataURL ?P (u_file (hd [upload ''a'', upload ''b''])) = None \<or>
     window_piexif ?P = None \<or>
     (\<exists>codec d e.
        window_piexif ?P = Some codec \<and>
        readAsDataURL ?P (u_file (hd [upload ''a'', upload ''b''])) = Some d \<and>
        (piexif_load codec d = Inl e \<or>
         (\<exists>v. piexif_load codec d = Inr v \<and> typeof v = ''object'' \<and>
            (piexif_dump codec v = Inl e \<or>
             (\<exists>seg. piexif_dump codec v = Inr seg \<and>
                piexif_insert codec seg ''jpeg'' = Inl e)))))"
    by blast
  from metadata_failure_is_recovered [OF sample_run_ab failure] load
  show ?thesis by (auto simp: sample_platform_simps)
qed


section \<open>Empty metadata\<close>

text \<open>
  C3. When the parser reports a metadata segment without any tag for the first image,
  nothing should be injected and the encoded bytes should be returned unchanged. The code
  does not do this: its comments say that the segment is injected "if EXIF exists" and
  that the guard \<open>typeof exifObj === 'object'\<close> is there for empty content, but the guard
  only stops the textual placeholder. A dictionary without tags is an object, so it is
  serialized and inserted. With a codec that finds no tag in the first file, the encoded
  bytes are \<open>''jpeg''\<close> and the result holds \<open>''Exif:jpeg''\<close>.
\<close>

theorem empty_dictionary_is_injected:
  "piexif_load empty_codec ''a'' = Inr (Obj no_tags) \<and>
   fst (stitch_to_data_url (sample_platform (Some empty_codec)) [upload ''a'', upload ''b'']
          (fresh_world :: string world)) =
     Inr ([image_a, image_b], Fin 100, Fin 75, ''jpeg'') \<and>
   fst (stitchImages (sample_platform (Some empty_codec)) [upload ''a'', upload ''b'']
          (fresh_world :: string world)) =
     Inr \<lparr>blob = Some (Blob ''Exif:jpeg''), url = 2, movUrl = None, jpgUrl = None,
          width = Fin 100, height = Fin 75, isLivePhoto = None\<rparr>"
proof -
  let ?P = "sample_platform (Some empty_codec)"
  have ex: "process_exif ?P (u_file (hd [upload ''a'', upload ''b''])) ''jpeg'' =
              Inr (''Exif:jpeg'', [Log ''EXIF data transferred successfully.''])"
    by (simp add: process_exif_codec [where d = "''a''" and codec = empty_codec]
        sample_platform_simps upload_file exif_try_def empty_codec_def)
  have "piexif_load empty_codec ''a'' = Inr (Obj no_tags)"
    by (simp add: empty_codec_def)
  then show ?thesis
    by (simp add: stitchImages_continue [OF sample_run_ab ex] sample_run_ab sample_result_ab)
qed

section \<open>Metadata of the first image\<close>

text \<open>
  C7. Only the first file is read for metadata: what reading any other file would yield
  has no influence on the run. And when the codec parses a dictionary from the first file,
  serializes it, inserts the segment into the encoded composite and parses that same
  dictionary back from the bytes it produced, the run returns a result whose bytes parse
  to exactly the first image's dictionary: every tag of the first image with its value,
  and no other tag.
\<close>

theorem first_image_metadata_only:
  assumes "other (u_file (hd uploadedImages)) = readAsDataURL P (u_file (hd uploadedImages))"
  shows "stitchImages (P\<lparr>readAsDataURL := other\<rparr>) uploadedImages w =
           stitchImages P uploadedImages w \<and>
         (\<forall>loadedImages targetWidth totalHeight stitchedDataUrl w' firstImageDataUrl codec dict
             exifBytes finalDataUrl.
            stitch_to_data_url P uploadedImages w =
              (Inr (loadedImages, targetWidth, totalHeight, stitchedDataUrl), w') \<and>
            readAsDataURL P (u_file (hd uploadedImages)) = Some firstImageDataUrl \<and>
            window_piexif P = Some codec \<and>
            piexif_load codec firstImageDataUrl = Inr (Obj dict) \<and>
            piexif_dump codec (Obj dict) = Inr exifBytes \<and>
            piexif_insert codec exifBytes stitchedDataUrl = Inr finalDataUrl \<and>
            piexif_load codec finalDataUrl = Inr (Obj dict) \<and>
            fetch P finalDataUrl \<longrightarrow>
            (\<exists>r w'' bytes. stitchImages P uploadedImages w = (Inr r, w'') \<and>
               blob r = Some (Blob bytes) \<and> piexif_load codec bytes = Inr (Obj dict)))"
proof (intro conjI allI impI)
  from assms show
    "stitchImages (P\<lparr>readAsDataURL := other\<rparr>) uploadedImages w = stitchImages P uploadedImages w"
    by (rule stitchImages_read)
next
  fix loadedImages targetWidth totalHeight stitchedDataUrl w' firstImageDataUrl codec dict
    exifBytes finalDataUrl
  assume a: "stitch_to_data_url P uploadedImages w =
              (Inr (loadedImages, targetWidth, totalHeight, stitchedDataUrl), w') \<and>
            readAsDataURL P (u_file (hd uploadedImages)) = Some firstImageDataUrl \<and>
            window_piexif P = Some codec \<and>
            piexif_load codec firstImageDataUrl = Inr (Obj dict) \<and>
            piexif_dump codec (Obj dict) = Inr exifBytes \<and>
            piexif_insert codec exifBytes stitchedDataUrl = Inr finalDataUrl \<and>
            piexif_load codec finalDataUrl = Inr (Obj dict) \<and>
            fetch P finalDataUrl"
  then have enc: "stitch_to_data_url P uploadedImages w =
      (Inr (loadedImages, targetWidth, totalHeight, stitchedDataUrl), w')"
    and fetched: "fetch P finalDataUrl"
    and parsed: "piexif_load codec finalDataUrl = Inr (Obj dict)"
    by simp_all
  from a have "exif_try codec firstImageDataUrl stitchedDataUrl =
          Inr (finalDataUrl, [Log ''EXIF data transferred successfully.''])"
    by (simp add: exif_try_def)
  with a have
    ex: "process_exif P (u_file (hd uploadedImages)) stitchedDataUrl =
           Inr (finalDataUrl, [Log ''EXIF data transferred successfully.''])"
    by (simp add: process_exif_codec)
  from export_result_fetched [OF fetched] stitchImages_continue [OF enc ex]
  obtain r w'' where "stitchImages P uploadedImages w = (Inr r, w'')"
    and "blob r = Some (Blob finalDataUrl)"
    by metis
  with parsed show
    "\<exists>r w'' bytes. stitchImages P uploadedImages w = (Inr r, w'') \<and>
       blob r = Some (Blob bytes) \<and> piexif_load codec bytes = Inr (Obj dict)"
    by blast
qed

theorem first_image_metadata_only_witness:
  "piexif_load tagging_codec ''a'' = Inr (Obj canon) \<and>
   other_reader ''b'' = Some ''n'' \<and> piexif_load tagging_codec ''n'' = Inr (Obj nikon) \<and>
   (\<exists>r w'' bytes.
      stitchImages (sample_platform (Some tagging_codec)) [upload ''a'', upload ''b'']
        (fresh_world :: string world) = (Inr r, w'') \<and>
      blob r = Some (Blob bytes) \<and> piexif_load tagging_codec bytes = Inr (Obj canon)) \<and>
   stitchImages ((sample_platform (Some tagging_codec))\<lparr>readAsDataURL := other_reader\<rparr>)
     [upload ''a'', upload ''b''] (fresh_world :: string world) =
   stitchImages (sample_platform (Some tagging_codec)) [upload ''a'', upload ''b''] fresh_world"
proof -
  let ?P = "sample_platform (Some tagging_codec) :: (string, string) platform"
  have 1: "other_reader (u_file (hd [upload ''a'', upload ''b''])) =
           readAsDataURL ?P (u_file (hd [upload ''a'', upload ''b'']))"
    by (simp add: other_reader_def upload_file sample_platform_simps)
  note t = first_image_metadata_only [where other = other_reader and P = ?P
      and uploadedImages = "[upload ''a'', upload ''b'']" and w = fresh_world, OF 1]
  have hyps:
    "stitch_to_data_url ?P [upload ''a'', upload ''b''] fresh_world =
       (Inr ([image_a, image_b], Fin 100, Fin 75, ''jpeg''),
        \<lparr>next_url = 2, object_urls = [0, 1],
         canvases =
           [\<lparr>c_width = 100, c_height = 75, fillStyle = ''#FFFFFF'',
             drawn =
               [FillRect ''#FFFFFF'' (Fin 0) (Fin 0) (Fin 100) (Fin 75),
                DrawImage image_a (Fin 0) (Fin 0) (Fin 100) (Fin 50),
                DrawImage image_b (Fin 0) (Fin 50) (Fin 100) (Fin 25)]\<rparr>],
         console = []\<rparr>) \<and>
     readAsDataURL ?P (u_file (hd [upload ''a'', upload ''b''])) = Some ''a'' \<and>
     window_piexif ?P = Some tagging_codec \<and>
     piexif_load tagging_codec ''a'' = Inr (Obj canon) \<and>
     piexif_dump tagging_codec (Obj canon) = Inr ''Exif:'' \<and>
     piexif_insert tagging_codec ''Exif:'' ''jpeg'' = Inr ''Exif:jpeg'' \<and>
     piexif_load tagging_codec ''Exif:jpeg'' = Inr (Obj canon) \<and>
     fetch ?P ''Exif:jpeg''"
    by (simp add: sample_run_ab sample_platform_simps upload_file tagging_codec_def)
  from t have
    "stitchImages (?P\<lparr>readAsDataURL := other_reader\<rparr>) [upload ''a'', upload ''b''] fresh_world =
       stitchImages ?P [upload ''a'', upload ''b''] fresh_world"
    by (rule conjunct1)
  moreover from t hyps have
    "\<exists>r w'' bytes.
       stitchImages ?P [upload ''a'', upload ''b''] fresh_world = (Inr r, w'') \<and>
       blob r = Some (Blob bytes) \<and> piexif_load tagging_codec bytes = Inr (Obj canon)"
    by blast
  moreover have "other_reader ''b'' = Some ''n''"
    and "piexif_load tagging_codec ''n'' = Inr (Obj nikon)"
    and "piexif_load tagging_codec ''a'' = Inr (Obj canon)"
    by (simp_all add: other_reader_def tagging_codec_def)
  ultimately show ?thesis by simp
qed

section \<open>Layout\<close>

text \<open>
  C1. For every non-empty list of loaded images, the layout step takes the natural width of
  the first image as target width, gives each image the scale factor
  \<open>targetWidth / naturalWidth\<close> and the scaled height \<open>naturalHeight * scaleFactor\<close>, and
  takes as total height the sum of the scaled heights, added up in order from 0 without any
  rounding to integers. Every run of \<open>stitchImages\<close> that reaches the encoding has laid out
  its loaded images, a non-empty list, in this way. For two images of 100 by 50 and 200 by
  50 pixels the second scale factor is 0.5, the second scaled height is 25 and the canvas is
  100 by 75 pixels.
\<close>

theorem layout_scales_to_first_width:
  assumes "stitch_to_data_url P uploadedImages w =
             (Inr (loadedImages, targetWidth, totalHeight, stitchedDataUrl), w')"
  shows "layout i (i # is) =
           (to_number (naturalWidth i),
            map (\<lambda>j. \<lparr>img = j,
                       scaledHeight =
                         num_mul (to_number (naturalHeight j))
                           (num_div (to_number (naturalWidth i)) (to_number (naturalWidth j))),
                       scaleFactor =
                         num_div (to_number (naturalWidth i)) (to_number (naturalWidth j))\<rparr>)
              (i # is),
            foldl num_add (Fin 0)
              (map (\<lambda>j. num_mul (to_number (naturalHeight j))
                          (num_div (to_number (naturalWidth i)) (to_number (naturalWidth j))))
                 (i # is))) \<and>
         (\<exists>first rest.
            loadedImages = first # rest \<and>
            targetWidth = to_number (naturalWidth first) \<and>
            layout first loadedImages =
              (targetWidth,
               map (\<lambda>i. \<lparr>img = i,
                          scaledHeight =
                            num_mul (to_number (naturalHeight i))
                              (num_div targetWidth (to_number (naturalWidth i))),
                          scaleFactor = num_div targetWidth (to_number (naturalWidth i))\<rparr>)
                 loadedImages,
               totalHeight) \<and>
            totalHeight =
              foldl num_add (Fin 0)
                (map (\<lambda>i. num_mul (to_number (naturalHeight i))
                             (num_div targetWidth (to_number (naturalWidth i))))
                   loadedImages)) \<and>
         layout image_a [image_a, image_b] =
           (Fin 100,
            [\<lparr>img = image_a, scaledHeight = Fin 50, scaleFactor = Fin 1\<rparr>,
             \<lparr>img = image_b, scaledHeight = Fin 25, scaleFactor = Fin (1 / 2)\<rparr>],
            Fin 75) \<and>
         map (\<lambda>cv. (c_width cv, c_height cv))
           (canvases (snd (stitch_to_data_url (sample_platform None) [upload ''a'', upload ''b'']
              (fresh_world :: string world)))) = [(100, 75)]"
proof (intro conjI)
  show "layout i (i # is) =
           (to_number (naturalWidth i),
            map (\<lambda>j. \<lparr>img = j,
                       scaledHeight =
                         num_mul (to_number (naturalHeight j))
                           (num_div (to_number (naturalWidth i)) (to_number (naturalWidth j))),
                       scaleFactor =
                         num_div (to_number (naturalWidth i)) (to_number (naturalWidth j))\<rparr>)
              (i # is),
            foldl num_add (Fin 0)
              (map (\<lambda>j. num_mul (to_number (naturalHeight j))
                          (num_div (to_number (naturalWidth i)) (to_number (naturalWidth j))))
                 (i # is)))"
    by (simp add: layout_def imageDrawData_closed Let_def)
  from stitch_to_data_url_layout [OF assms]
  obtain first rest where
    l: "loadedImages = first # rest" "targetWidth = fst (layout first loadedImages)"
      "totalHeight = snd (snd (layout first loadedImages))"
    by blast
  then show "\<exists>first rest.
            loadedImages = first # rest \<and>
            targetWidth = to_number (naturalWidth first) \<and>
            layout first loadedImages =
              (targetWidth,
               map (\<lambda>i. \<lparr>img = i,
                          scaledHeight =
                            num_mul (to_number (naturalHeight i))
                              (num_div targetWidth (to_number (naturalWidth i))),
                          scaleFactor = num_div targetWidth (to_number (naturalWidth i))\<rparr>)
                 loadedImages,
               totalHeight) \<and>
            totalHeight =
              foldl num_add (Fin 0)
                (map (\<lambda>i. num_mul (to_number (naturalHeight i))
                             (num_div targetWidth (to_number (naturalWidth i))))
                   loadedImages)"
    by (auto simp: layout_def imageDrawData_closed Let_def)
  show "layout image_a [image_a, image_b] =
           (Fin 100,
            [\<lparr>img = image_a, scaledHeight = Fin 50, scaleFactor = Fin 1\<rparr>,
             \<lparr>img = image_b, scaledHeight = Fin 25, scaleFactor = Fin (1 / 2)\<rparr>],
            Fin 75)"
    by (simp add: layout_def Let_def to_number_def image_a_def image_b_def fl_samples)
  show "map (\<lambda>cv. (c_width cv, c_height cv))
           (canvases (snd (stitch_to_data_url (sample_platform None) [upload ''a'', upload ''b'']
              (fresh_world :: string world)))) = [(100, 75)]"
    by (simp add: sample_run_ab)
qed

theorem layout_scales_to_first_width_witness:
  "layout image_a [image_a, image_b] =
     (Fin 100,
      map (\<lambda>i. \<lparr>img = i,
                 scaledHeight =
                   num_mul (to_number (naturalHeight i)) (num_div (Fin 100) (to_number (naturalWidth i))),
                 scaleFactor = num_div (Fin 100) (to_number (naturalWidth i))\<rparr>)
        [image_a, image_b],
      Fin 75)"
proof -
  from layout_scales_to_first_width [OF sample_run_ab [of None]]
  obtain first rest where
    "[image_a, image_b] = first # rest"
    and "layout first [image_a, image_b] =
           (Fin 100,
            map (\<lambda>i. \<lparr>img = i,
                       scaledHeight =
                         num_mul (to_number (naturalHeight i))
                           (num_div (Fin 100) (to_number (naturalWidth i))),
                       scaleFactor = num_div (Fin 100) (to_number (naturalWidth i))\<rparr>)
              [image_a, image_b],
            Fin 75)"
    by blast
  then show ?thesis by simp
qed

section \<open>Height of the canvas\<close>

text \<open>
  C4 fails on the code. The canvas height is assigned \<open>totalHeight\<close> itself, which the
  platform truncates, while the result reports \<open>Math.round(totalHeight)\<close>. For images of
  2 by 1 and 4 by 3 pixels the total height is 2.5: the canvas is 2 pixels high and the
  result says 3.
\<close>

theorem canvas_height_truncated:
  "stitchImages (sample_platform None) [upload ''c'', upload ''d''] fresh_world =
     (Inr \<lparr>blob = Some (Blob ''jpeg''), url = 2, movUrl = None, jpgUrl = None,
            width = Fin 2, height = Fin 3, isLivePhoto = None\<rparr>,
      \<lparr>next_url = 3, object_urls = [2],
       canvases =
         [\<lparr>c_width = 2, c_height = 2, fillStyle = ''#FFFFFF'',
           drawn =
             [FillRect ''#FFFFFF'' (Fin 0) (Fin 0) (Fin 2) (Fin 2),
              DrawImage image_c (Fin 0) (Fin 0) (Fin 2) (Fin 1),
              DrawImage image_d (Fin 0) (Fin 1) (Fin 2) (Fin (3 / 2))]\<rparr>],
       console = [Warn ''Piexifjs not found. EXIF data will not be kept.'']\<rparr>)"
proof -
  have ex: "process_exif (sample_platform None :: (string, string) platform)
              (u_file (hd [upload ''c'', upload ''d''])) ''jpeg'' =
            Inr (''jpeg'', [Warn ''Piexifjs not found. EXIF data will not be kept.''])"
    by (rule process_exif_no_codec) (simp_all add: sample_platform_simps)
  show ?thesis
    by (simp add: stitchImages_continue [OF sample_run_cd ex] export_result_def
        sample_platform_simps createObjectURL_def revokeObjectURL_def image_c_def image_d_def)
qed

section \<open>Release of the object URLs\<close>

text \<open>
  C5 fails on the code. The object URLs of the loaded images are revoked only at the end of
  a successful run. When the second file fails to decode, and when the canvas gives no
  context, the run ends with both URLs (0 and 1) still alive; in the successful run on the
  same platform only the result's URL (2) remains.
\<close>

theorem object_urls_leak_on_abort:
  "stitchImages (sample_platform None) [upload ''a'', upload ''x''] fresh_world =
     (Inl LoadEvent, \<lparr>next_url = 2, object_urls = [0, 1], canvases = [], console = []\<rparr>) \<and>
   stitchImages ((sample_platform None)\<lparr>getContext := \<lambda>cw ch. False\<rparr>)
       [upload ''a'', upload ''b''] fresh_world =
     (Inl (Error ''cannot get canvas context''),
      \<lparr>next_url = 2, object_urls = [0, 1],
       canvases = [\<lparr>c_width = 100, c_height = 75, fillStyle = ''#000000'', drawn = []\<rparr>],
       console = []\<rparr>) \<and>
   snd (stitchImages (sample_platform None) [upload ''a'', upload ''b''] fresh_world) =
     \<lparr>next_url = 3, object_urls = [2],
      canvases =
        [\<lparr>c_width = 100, c_height = 75, fillStyle = ''#FFFFFF'',
          drawn =
            [FillRect ''#FFFFFF'' (Fin 0) (Fin 0) (Fin 100) (Fin 75),
             DrawImage image_a (Fin 0) (Fin 0) (Fin 100) (Fin 50),
             DrawImage image_b (Fin 0) (Fin 50) (Fin 100) (Fin 25)]\<rparr>],
      console = [Warn ''Piexifjs not found. EXIF data will not be kept.'']\<rparr>"
proof (intro conjI)
  show "stitchImages (sample_platform None) [upload ''a'', upload ''x''] fresh_world =
     (Inl LoadEvent, \<lparr>next_url = 2, object_urls = [0, 1], canvases = [], console = []\<rparr>)"
    by (simp add: stitchImages_def run_defs)
  show "stitchImages ((sample_platform None)\<lparr>getContext := \<lambda>cw ch. False\<rparr>)
       [upload ''a'', upload ''b''] fresh_world =
     (Inl (Error ''cannot get canvas context''),
      \<lparr>next_url = 2, object_urls = [0, 1],
       canvases = [\<lparr>c_width = 100, c_height = 75, fillStyle = ''#000000'', drawn = []\<rparr>],
       console = []\<rparr>)"
    by (simp add: stitchImages_def run_defs fl_samples)
  have ex: "process_exif (sample_platform None :: (string, string) platform)
              (u_file (hd [upload ''a'', upload ''b''])) ''jpeg'' =
            Inr (''jpeg'', [Warn ''Piexifjs not found. EXIF data will not be kept.''])"
    by (rule process_exif_no_codec) (simp_all add: sample_platform_simps)
  show "snd (stitchImages (sample_platform None) [upload ''a'', upload ''b''] fresh_world) =
     \<lparr>next_url = 3, object_urls = [2],
      canvases =
        [\<lparr>c_width = 100, c_height = 75, fillStyle = ''#FFFFFF'',
          drawn =
            [FillRect ''#FFFFFF'' (Fin 0) (Fin 0) (Fin 100) (Fin 75),
             DrawImage image_a (Fin 0) (Fin 0) (Fin 100) (Fin 50),
             DrawImage image_b (Fin 0) (Fin 50) (Fin 100) (Fin 25)]\<rparr>],
      console = [Warn ''Piexifjs not found. EXIF data will not be kept.'']\<rparr>"
    by (simp add: stitchImages_continue [OF sample_run_ab ex] sample_result_ab)
qed

section \<open>Draw order\<close>

text \<open>
  C8, as stated, does not hold: the offset does not increase past an image whose scaled
  height is 0. For three images of 1 by 1, 1 by 0 and 1 by 1 pixels the second and the third
  image are both drawn at offset 1.
\<close>

theorem offsets_not_strictly_increasing:
  "canvases (snd (stitch_to_data_url (sample_platform None) [upload ''e'', upload ''z'', upload ''e'']
      fresh_world)) =
     [\<lparr>c_width = 1, c_height = 2, fillStyle = ''#FFFFFF'',
       drawn =
         [FillRect ''#FFFFFF'' (Fin 0) (Fin 0) (Fin 1) (Fin 2),
          DrawImage \<lparr>naturalWidth = 1, naturalHeight = 1, src = 0, pixels = ''E''\<rparr>
            (Fin 0) (Fin 0) (Fin 1) (Fin 1),
          DrawImage \<lparr>naturalWidth = 1, naturalHeight = 0, src = 1, pixels = ''Z''\<rparr>
            (Fin 0) (Fin 1) (Fin 1) (Fin 0),
          DrawImage \<lparr>naturalWidth = 1, naturalHeight = 1, src = 2, pixels = ''E''\<rparr>
            (Fin 0) (Fin 1) (Fin 1) (Fin 1)]\<rparr>] \<and>
   \<not> num_less (Fin 1) (Fin 1)"
  by (simp add: run_defs fl_samples)

text \<open>
  C8, amended. In every run that reaches the encoding, the loaded images are the uploaded
  files decoded in input order, and after the white background they are drawn in that
  order, the image of index \<open>k\<close> at an offset equal to the sum of the scaled heights of the
  images before it (added in order, from 0), so the first image is at offset 0. The offset
  never decreases from one image to the next, and it increases strictly past every image
  whose scaled height is at least 1 as long as the offset is below \<open>2 ^ 53\<close>.
\<close>

theorem drawn_in_input_order:
  assumes "stitch_to_data_url P uploadedImages w =
             (Inr (loadedImages, targetWidth, totalHeight, stitchedDataUrl), w')"
  shows "map (decode P \<circ> u_file) uploadedImages =
           map (\<lambda>i. Some (naturalWidth i, naturalHeight i, pixels i)) loadedImages \<and>
         (\<exists>cv. canvases w' = canvases w @ [cv] \<and>
            drawn cv =
              FillRect ''#FFFFFF'' (Fin 0) (Fin 0) (Fin (of_int (c_width cv))) (Fin (of_int (c_height cv)))
                # map (\<lambda>k. DrawImage (loadedImages ! k) (Fin 0)
                              (spec_yOffset targetWidth loadedImages k) targetWidth
                              (spec_scaledHeight targetWidth (loadedImages ! k)))
                    [0..<length loadedImages]) \<and>
         spec_yOffset targetWidth loadedImages 0 = Fin 0 \<and>
         (\<forall>k. Suc k < length loadedImages \<longrightarrow>
            \<not> num_less (spec_yOffset targetWidth loadedImages (Suc k))
                 (spec_yOffset targetWidth loadedImages k)) \<and>
         (\<forall>k x y. Suc k < length loadedImages \<and>
            spec_yOffset targetWidth loadedImages k = Fin x \<and> x < 2 ^ 53 \<and>
            spec_scaledHeight targetWidth (loadedImages ! k) = Fin y \<and> 1 \<le> y \<longrightarrow>
            num_less (spec_yOffset targetWidth loadedImages k)
              (spec_yOffset targetWidth loadedImages (Suc k)))"
proof (intro conjI allI impI)
  from stitch_to_data_url_loaded [OF assms]
  have "fst (map_loadImage P (map u_file uploadedImages) w) = map Inr loadedImages"
    by (rule Promise_all_Inr)
  from map_loadImage_decoded [OF this]
  show "map (decode P \<circ> u_file) uploadedImages =
          map (\<lambda>i. Some (naturalWidth i, naturalHeight i, pixels i)) loadedImages"
    by simp
next
  from stitch_to_data_url_layout [OF assms]
  obtain first rest where
    l: "loadedImages = first # rest" "targetWidth = fst (layout first loadedImages)"
      "totalHeight = snd (snd (layout first loadedImages))"
      "canvases w' = canvases w @
         [paint targetWidth (fst (snd (layout first loadedImages)))
            (new_canvas targetWidth totalHeight)]"
    by blast
  have dd: "fst (snd (layout first loadedImages)) =
              map (\<lambda>i. \<lparr>img = i, scaledHeight = spec_scaledHeight targetWidth i,
                          scaleFactor = num_div targetWidth (to_number (naturalWidth i))\<rparr>)
                loadedImages"
    using l(2) by (simp add: layout_def imageDrawData_closed Let_def spec_scaledHeight_def)
  let ?cv = "paint targetWidth (fst (snd (layout first loadedImages)))
               (new_canvas targetWidth totalHeight)"
  have "drawn ?cv =
          FillRect ''#FFFFFF'' (Fin 0) (Fin 0) (Fin (of_int (c_width ?cv))) (Fin (of_int (c_height ?cv)))
            # map (\<lambda>k. DrawImage (loadedImages ! k) (Fin 0)
                          (spec_yOffset targetWidth loadedImages k) targetWidth
                          (spec_scaledHeight targetWidth (loadedImages ! k)))
                [0..<length loadedImages]"
    unfolding dd by (simp add: paint_def new_canvas_def draw_images_closed spec_yOffset_def)
  with l(4) show
    "\<exists>cv. canvases w' = canvases w @ [cv] \<and>
       drawn cv =
         FillRect ''#FFFFFF'' (Fin 0) (Fin 0) (Fin (of_int (c_width cv))) (Fin (of_int (c_height cv)))
           # map (\<lambda>k. DrawImage (loadedImages ! k) (Fin 0)
                         (spec_yOffset targetWidth loadedImages k) targetWidth
                         (spec_scaledHeight targetWidth (loadedImages ! k)))
               [0..<length loadedImages]"
    by blast
next
  show "spec_yOffset targetWidth loadedImages 0 = Fin 0"
    by (simp add: spec_yOffset_def)
next
  fix k
  assume k: "Suc k < length loadedImages"
  from stitch_to_data_url_layout [OF assms]
  have tw: "nonneg targetWidth" by (auto simp: layout_def Let_def split_beta nonneg_to_number)
  have "nonneg (spec_scaledHeight targetWidth (loadedImages ! k))"
    using tw by (simp add: spec_scaledHeight_def nonneg_num_mul nonneg_num_div nonneg_to_number)
  with good_spec_yOffset [OF tw, of loadedImages k] k
  show "\<not> num_less (spec_yOffset targetWidth loadedImages (Suc k))
          (spec_yOffset targetWidth loadedImages k)"
    by (simp add: spec_yOffset_Suc num_add_good)
next
  fix k x y
  assume a: "Suc k < length loadedImages \<and>
             spec_yOffset targetWidth loadedImages k = Fin x \<and> x < 2 ^ 53 \<and>
             spec_scaledHeight targetWidth (loadedImages ! k) = Fin y \<and> 1 \<le> y"
  from stitch_to_data_url_layout [OF assms]
  have tw: "nonneg targetWidth" by (auto simp: layout_def Let_def split_beta nonneg_to_number)
  from good_spec_yOffset [OF tw, of loadedImages k] a have "0 \<le> x" and "grid x"
    by (simp_all add: good_def)
  from fl_increase [OF this] a
  show "num_less (spec_yOffset targetWidth loadedImages k)
          (spec_yOffset targetWidth loadedImages (Suc k))"
    by (simp add: spec_yOffset_Suc)
qed

theorem drawn_in_input_order_witness:
  "map (decode (sample_platform None) \<circ> u_file) [upload ''a'', upload ''b''] =
     [Some (100, 50, ''A''), Some (200, 50, ''B'')] \<and>
   spec_yOffset (Fin 100) [image_a, image_b] 0 = Fin 0 \<and>
   spec_yOffset (Fin 100) [image_a, image_b] (Suc 0) = Fin 50 \<and>
   \<not> num_less (spec_yOffset (Fin 100) [image_a, image_b] (Suc 0))
        (spec_yOffset (Fin 100) [image_a, image_b] 0) \<and>
   num_less (spec_yOffset (Fin 100) [image_a, image_b] 0)
     (spec_yOffset (Fin 100) [image_a, image_b] (Suc 0))"
proof -
  note t = drawn_in_input_order [OF sample_run_ab [of None]]
  have h: "spec_scaledHeight (Fin 100) image_a = Fin 50"
    by (simp add: spec_scaledHeight_def image_a_def to_number_def fl_samples)
  have y0: "spec_yOffset (Fin 100) [image_a, image_b] 0 = Fin 0"
    by (simp add: spec_yOffset_def)
  have y1: "spec_yOffset (Fin 100) [image_a, image_b] (Suc 0) = Fin 50"
    by (simp add: spec_yOffset_def h fl_samples)
  from t have "map (decode (sample_platform None) \<circ> u_file) [upload ''a'', upload ''b''] =
     map (\<lambda>i. Some (naturalWidth i, naturalHeight i, pixels i)) [image_a, image_b]"
    by blast
  then have 1: "map (decode (sample_platform None) \<circ> u_file) [upload ''a'', upload ''b''] =
     [Some (100, 50, ''A''), Some (200, 50, ''B'')]"
    by (simp add: image_a_def image_b_def)
  from t have "Suc 0 < length [image_a, image_b] \<longrightarrow>
     \<not> num_less (spec_yOffset (Fin 100) [image_a, image_b] (Suc 0))
          (spec_yOffset (Fin 100) [image_a, image_b] 0)"
    by blast
  then have 2: "\<not> num_less (spec_yOffset (Fin 100) [image_a, image_b] (Suc 0))
          (spec_yOffset (Fin 100) [image_a, image_b] 0)"
    by simp
  from t have "Suc 0 < length [image_a, image_b] \<and>
            spec_yOffset (Fin 100) [image_a, image_b] 0 = Fin 0 \<and> (0::rat) < 2 ^ 53 \<and>
            spec_scaledHeight (Fin 100) ([image_a, image_b] ! 0) = Fin 50 \<and> (1::rat) \<le> 50 \<longrightarrow>
            num_less (spec_yOffset (Fin 100) [image_a, image_b] 0)
              (spec_yOffset (Fin 100) [image_a, image_b] (Suc 0))"
    by blast
  then have 3: "num_less (spec_yOffset (Fin 100) [image_a, image_b] 0)
              (spec_yOffset (Fin 100) [image_a, image_b] (Suc 0))"
    using h y0 by simp
  from 1 2 3 y0 y1 show ?thesis by simp
qed

end
